theory Spec2Isabelle
  imports Main "HOL-Library.Word" "HOL-Library.Multiset"
begin

section \<open>Data model of gribdownloader.go\<close>

text \<open>
  Go's \<open>int64\<close> is a 64-bit two's complement integer whose arithmetic wraps silently:
  it is \<open>64 word\<close>, read by \<open>sint\<close> and compared by the signed orders \<open><=s\<close> and
  \<open><s\<close>. Go's \<open>int\<close> is taken at its 64-bit width.
\<close>

type_synonym int64 = "64 word"

record GFSParameter =
  Number :: int64
  Offset :: int64
  Date :: string
  Parameter :: string
  Level :: string
  Type :: string

record RangeDownload =
  Start :: int64
  End :: int64

text \<open>The \<open>parameters\<close> field of \<open>Config\<close>: a Go \<open>map[string][]string\<close>.\<close>

type_synonym requested = "string \<rightharpoonup> string list"

record Config =
  IdxURL :: string
  Parameters :: requested

text \<open>
  A Go \<open>error\<close> value handed over by a library call (\<open>os\<close>, \<open>net/http\<close>, \<open>io\<close>,
  \<open>bufio\<close>, \<open>encoding/json\<close>), with its message. The errors the program builds with
  \<open>fmt.Errorf\<close> are datatypes of their own below, one constructor for each message.
\<close>

datatype error = Error string

text \<open>The bytes of the destination file; its length is the file size.\<close>

type_synonym byte = "8 word"

type_synonym contents = "byte list"

section \<open>parseIDXFile\<close>

text \<open>
  Library functions, from their documentation: \<open>strings.Split\<close> for a one-byte
  separator and \<open>strings.TrimPrefix\<close>.
\<close>

fun Split :: "string \<Rightarrow> char \<Rightarrow> string list" where
  "Split [] sep = [[]]"
| "Split (c # cs) sep =
     (if c = sep then [] # Split cs sep
      else (case Split cs sep of
              part # parts \<Rightarrow> (c # part) # parts
            | [] \<Rightarrow> [[c]]))"

definition TrimPrefix :: "string \<Rightarrow> string \<Rightarrow> string" where
  "TrimPrefix s prefix =
     (if take (length prefix) s = prefix then drop (length prefix) s else s)"

text \<open>
  \<open>strconv.ParseInt(s, 10, 64)\<close>: an optional sign, then one or more decimal digits and
  nothing else; a value outside \<open>[-2^63, 2^63 - 1]\<close> is a range error. \<open>strconv.Atoi\<close>
  is the same function at the width of \<open>int\<close>. \<open>None\<close> stands for a non-nil error.
\<close>

definition isDigit :: "char \<Rightarrow> bool" where
  "isDigit c = (48 \<le> (of_char c :: nat) \<and> (of_char c :: nat) \<le> 57)"

definition digitsValue :: "string \<Rightarrow> int" where
  "digitsValue ds = foldl (\<lambda>n c. n * 10 + (int (of_char c) - 48)) 0 ds"

definition ParseInt :: "string \<Rightarrow> int64 option" where
  "ParseInt s =
     (let neg = (s \<noteq> [] \<and> hd s = CHR ''-'');
          ds = (if s \<noteq> [] \<and> (hd s = CHR ''+'' \<or> hd s = CHR ''-'') then tl s else s)
      in if ds = [] \<or> \<not> list_all isDigit ds then None
         else if neg then
           (if 2 ^ 63 < digitsValue ds then None else Some (word_of_int (- digitsValue ds)))
         else
           (if 2 ^ 63 \<le> digitsValue ds then None else Some (word_of_int (digitsValue ds))))"

definition Atoi :: "string \<Rightarrow> int64 option" where
  "Atoi s = ParseInt s"

text \<open>
  What \<open>bufio.Scanner\<close> yields for the opened file: the lines \<open>scanner.Text()\<close> returns,
  in order, and the value of \<open>scanner.Err()\<close> after the last one.
\<close>

datatype scanned = Scanned (scanLines: "string list") (scanErr: "error option")

datatype parseError = ErrOpeningIdx error | ErrReadingIdx error

text \<open>
  The loop over the lines (lines 76-104); the result is what it appends to \<open>parameters\<close>.
  Each \<open>continue\<close> goes on with the remaining lines.
\<close>

fun parseLines :: "string list \<Rightarrow> GFSParameter list" where
  "parseLines [] = []"
| "parseLines (line # lines) =
     (let parts = Split line CHR '':'' in
      if length parts < 6 then parseLines lines
      else (case Atoi (parts ! 0) of
              None \<Rightarrow> parseLines lines
            | Some number \<Rightarrow>
                (case ParseInt (parts ! 1) of
                   None \<Rightarrow> parseLines lines
                 | Some offset \<Rightarrow>
                     \<lparr>Number = number, Offset = offset,
                      Date = TrimPrefix (parts ! 2) ''d='',
                      Parameter = parts ! 3, Level = parts ! 4, Type = parts ! 5\<rparr>
                       # parseLines lines)))"

text \<open>
  \<open>parseIDXFile\<close>, given what \<open>os.Open(idxPath)\<close> returns: an error, or a file that
  the scanner reads.
\<close>

definition parseIDXFile :: "error + scanned \<Rightarrow> parseError + GFSParameter list" where
  "parseIDXFile idxFile =
     (case idxFile of
        Inl err \<Rightarrow> Inl (ErrOpeningIdx err)
      | Inr file \<Rightarrow>
          (let parameters = parseLines (scanLines file) in
           case scanErr file of
             Some err \<Rightarrow> Inl (ErrReadingIdx err)
           | None \<Rightarrow> Inr parameters))"

text \<open>
  The scanner of line 74 on the text of the file: \<open>bufio.NewScanner\<close> with its default
  split function \<open>ScanLines\<close> and its default buffer. The text is cut at each newline
  (a last line need not end in one, and a text that ends in a newline has no further
  empty line); a line, before its newline, must be shorter than \<open>MaxScanTokenSize\<close>
  (64 KiB) to fit the buffer, else scanning stops there and \<open>scanner.Err()\<close> is
  \<open>ErrTooLong\<close>; one trailing carriage return is dropped from each line. \<open>readErr\<close> is
  the error, if any, with which reading the file ends after the text.
\<close>

definition MaxScanTokenSize :: nat where
  "MaxScanTokenSize = 64 * 1024"

definition ErrTooLong :: error where
  "ErrTooLong = Error ''bufio.Scanner: token too long''"

definition dropCR :: "string \<Rightarrow> string" where
  "dropCR data = (if data \<noteq> [] \<and> last data = CHR 0x0D then butlast data else data)"

definition textLines :: "string \<Rightarrow> string list" where
  "textLines text =
     (let parts = Split text (CHR 0x0A)
      in if last parts = [] then butlast parts else parts)"

fun scanTokens :: "string list \<Rightarrow> error option \<Rightarrow> string list \<times> error option" where
  "scanTokens [] readErr = ([], readErr)"
| "scanTokens (raw # rest) readErr =
     (if MaxScanTokenSize \<le> length raw then ([], Some ErrTooLong)
      else (case scanTokens rest readErr of
              (lines, err) \<Rightarrow> (dropCR raw # lines, err)))"

definition scanText :: "string \<Rightarrow> error option \<Rightarrow> scanned" where
  "scanText text readErr =
     (case scanTokens (textLines text) readErr of
        (lines, err) \<Rightarrow> Scanned lines err)"

section \<open>generateRanges\<close>

text \<open>
  The inner loop over the requested levels (lines 129-134): \<open>levelRequested\<close> becomes
  true at the first level equal to the entry's level.
\<close>

fun levelLoop :: "string list \<Rightarrow> string \<Rightarrow> bool" where
  "levelLoop [] l = False"
| "levelLoop (level # levels) l = (if level = l then True else levelLoop levels l)"

definition levelRequested :: "string list \<Rightarrow> string \<Rightarrow> bool" where
  "levelRequested levels l = (if length levels = 0 then True else levelLoop levels l)"

text \<open>
  The end offset of the entry \<open>param\<close> (lines 142-148); \<open>rest\<close> holds the entries after
  it, so \<open>i < len(parameters)-1\<close> reads \<open>rest \<noteq> []\<close> and \<open>parameters[i+1]\<close> is its head.
\<close>

definition endOffset :: "GFSParameter \<Rightarrow> GFSParameter list \<Rightarrow> int64" where
  "endOffset param rest =
     (case rest of
        next # _ \<Rightarrow> Offset next - 1
      | [] \<Rightarrow> Offset param + 1024 * 1024)"

text \<open>The first loop (lines 117-154), from entry \<open>i\<close> on; the result is what it appends.\<close>

fun collectRanges :: "GFSParameter list \<Rightarrow> requested \<Rightarrow> RangeDownload list" where
  "collectRanges [] requestedParams = []"
| "collectRanges (param # rest) requestedParams =
     (case requestedParams (Parameter param) of
        None \<Rightarrow> collectRanges rest requestedParams
      | Some levels \<Rightarrow>
          if \<not> levelRequested levels (Level param) then collectRanges rest requestedParams
          else \<lparr>Start = Offset param, End = endOffset param rest\<rparr>
                 # collectRanges rest requestedParams)"

text \<open>
  The merge loop (lines 159-171): \<open>merged\<close> is never empty, \<open>last\<close> is its last element,
  updated in place when the current range starts at or before \<open>last.End+1\<close>.
\<close>

fun mergeLoop :: "RangeDownload list \<Rightarrow> RangeDownload list \<Rightarrow> RangeDownload list" where
  "mergeLoop merged [] = merged"
| "mergeLoop merged (current # rest) =
     (if Start current <=s End (last merged) + 1
      then (if End (last merged) <s End current
            then mergeLoop (butlast merged @ [(last merged)\<lparr>End := End current\<rparr>]) rest
            else mergeLoop merged rest)
      else mergeLoop (merged @ [current]) rest)"

definition mergeRanges :: "RangeDownload list \<Rightarrow> RangeDownload list" where
  "mergeRanges ranges =
     (if length ranges > 1 then mergeLoop [ranges ! 0] (drop 1 ranges) else ranges)"

definition generateRanges ::
  "GFSParameter list \<Rightarrow> requested \<Rightarrow> RangeDownload list \<times> error option" where
  "generateRanges parameters requestedParams =
     (mergeRanges (collectRanges parameters requestedParams), None)"

section \<open>downloadRange\<close>

text \<open>
  What one call of \<open>downloadRange\<close> meets: the result of each library call on its path.
  \<open>Body\<close> holds the bytes that \<open>io.Copy\<close> writes to the file before it returns,
  \<open>copyErr\<close> the error it returns. The server and the destination path are fixed, so
  \<open>url\<close> and \<open>outputFile\<close> are not parameters of the model.
\<close>

record taskWorld =
  newRequestErr :: "error option"
  doErr :: "error option"
  StatusCode :: int
  Body :: "byte list"
  openErr :: "error option"
  seekErr :: "error option"
  copyErr :: "error option"

datatype fetchError =
    ErrCreatingRequest error
  | ErrMakingRequest error
  | UnexpectedStatus int
  | ErrOpeningOutput error
  | ErrSeeking error
  | ErrCopying error

text \<open>\<open>out.Seek(offset, 0)\<close>: a negative offset is an error whatever the file.\<close>

definition Seek :: "error option \<Rightarrow> int64 \<Rightarrow> error option" where
  "Seek failure offset =
     (if offset <s 0 then Some (Error ''invalid argument'') else failure)"

text \<open>
  Writing \<open>data\<close> at position \<open>off\<close>: bytes in place are replaced, the file grows
  where the data reaches past its end, and a gap before \<open>off\<close> reads as zeros. Writing
  nothing leaves the file as it is.
\<close>

definition writeAt :: "contents \<Rightarrow> nat \<Rightarrow> byte list \<Rightarrow> contents" where
  "writeAt f off data =
     (if data = [] then f
      else take off f @ replicate (off - length f) 0 @ data @ drop (off + length data) f)"

text \<open>
  \<open>downloadRange\<close> (lines 179-227), on the contents of the destination file. The mutex
  makes the part from \<open>os.OpenFile\<close> to the return one step on the file.
\<close>

definition downloadRange :: "taskWorld \<Rightarrow> RangeDownload \<Rightarrow> contents \<Rightarrow> fetchError option \<times> contents" where
  "downloadRange w rangeSpec file =
     (case newRequestErr w of
        Some err \<Rightarrow> (Some (ErrCreatingRequest err), file)
      | None \<Rightarrow>
     (case doErr w of
        Some err \<Rightarrow> (Some (ErrMakingRequest err), file)
      | None \<Rightarrow>
     if StatusCode w \<noteq> 206 then (Some (UnexpectedStatus (StatusCode w)), file)
     else
     (case openErr w of
        Some err \<Rightarrow> (Some (ErrOpeningOutput err), file)
      | None \<Rightarrow>
     (case Seek (seekErr w) (Start rangeSpec) of
        Some err \<Rightarrow> (Some (ErrSeeking err), file)
      | None \<Rightarrow>
     (case copyErr w of
        Some err \<Rightarrow>
          (Some (ErrCopying err), writeAt file (nat (sint (Start rangeSpec))) (Body w))
      | None \<Rightarrow> (None, writeAt file (nat (sint (Start rangeSpec))) (Body w)))))))"

section \<open>downloadRanges\<close>

text \<open>
  The error a task sends on the \<open>errors\<close> channel, with the bounds of its range, and the
  errors \<open>downloadRanges\<close> returns.
\<close>

datatype rangeFailure = ErrDownloadingRange int64 int64 fetchError

datatype downloadError =
    ErrCreatingOutputFile error
  | ErrPreallocating error
  | Encountered nat "rangeFailure list"

text \<open>
  What \<open>downloadRanges\<close> itself does, in program order: it opens the file with
  \<open>O_CREATE|O_TRUNC\<close>, truncates it to a size, and starts a goroutine for the range at an
  index.
\<close>

datatype event = OpenFile | TruncateTo int64 | Go nat

text \<open>
  What a call of \<open>downloadRanges\<close> meets: the results of \<open>os.OpenFile\<close> and of
  \<open>file.Truncate\<close>, what the task of each range meets, the order in which the tasks
  take the mutex, and the order in which they reach the send on the \<open>errors\<close> channel.
  The channel has room for \<open>len(ranges)\<close> errors, so no send blocks.
\<close>

record world =
  createErr :: "error option"
  truncateErr :: "error option"
  task :: "nat \<Rightarrow> taskWorld"
  lockOrder :: "nat list"
  sendOrder :: "nat list"

text \<open>
  \<open>file.Truncate(n)\<close>: a negative size is an error; otherwise the file is cut or
  extended with zeros to \<open>n\<close> bytes.
\<close>

definition Truncate :: "error option \<Rightarrow> int64 \<Rightarrow> contents \<Rightarrow> error + contents" where
  "Truncate failure n f =
     (if n <s 0 then Inl (Error ''invalid argument'')
      else (case failure of
              Some err \<Rightarrow> Inl err
            | None \<Rightarrow> Inr (take (nat (sint n)) f @ replicate (nat (sint n) - length f) 0)))"

text \<open>The loop that computes \<open>maxEnd\<close> (lines 232-237), started at 0.\<close>

fun maxEndLoop :: "RangeDownload list \<Rightarrow> int64 \<Rightarrow> int64" where
  "maxEndLoop [] maxEnd = maxEnd"
| "maxEndLoop (r # rs) maxEnd = maxEndLoop rs (if maxEnd <s End r then End r else maxEnd)"

text \<open>
  The tasks in the order they take the mutex: each runs \<open>downloadRange\<close> on the file
  as the tasks before it left it, whatever their results. The result lists each task
  with its error. An index that is no index of \<open>ranges\<close> names no task.
\<close>

fun runTasks ::
  "(nat \<Rightarrow> taskWorld) \<Rightarrow> RangeDownload list \<Rightarrow> nat list \<Rightarrow> contents
    \<Rightarrow> (nat \<times> fetchError option) list \<times> contents" where
  "runTasks tw ranges [] file = ([], file)"
| "runTasks tw ranges (i # order) file =
     (if i < length ranges
      then (case downloadRange (tw i) (ranges ! i) file of
              (err, file') \<Rightarrow>
                (case runTasks tw ranges order file' of
                   (results, file'') \<Rightarrow> ((i, err) # results, file'')))
      else runTasks tw ranges order file)"

text \<open>
  The \<open>errors\<close> channel after \<open>close(errors)\<close>, read into \<open>errorsList\<close> (lines
  272-275): the errors of the failed tasks, in the order of their sends.
\<close>

fun collectErrors ::
  "RangeDownload list \<Rightarrow> (nat \<rightharpoonup> fetchError option) \<Rightarrow> nat list \<Rightarrow> rangeFailure list" where
  "collectErrors ranges results [] = []"
| "collectErrors ranges results (i # order) =
     (case results i of
        Some (Some err) \<Rightarrow>
          ErrDownloadingRange (Start (ranges ! i)) (End (ranges ! i)) err
            # collectErrors ranges results order
      | _ \<Rightarrow> collectErrors ranges results order)"

text \<open>
  \<open>downloadRanges\<close> (lines 230-282), on the destination file (\<open>None\<close>: it does not
  exist). The result is the error, the file, and what the function did.
\<close>

definition downloadRanges ::
  "world \<Rightarrow> RangeDownload list \<Rightarrow> contents option
    \<Rightarrow> downloadError option \<times> contents option \<times> event list" where
  "downloadRanges w ranges dest =
     (let maxEnd = maxEndLoop ranges 0 in
      case createErr w of
        Some err \<Rightarrow> (Some (ErrCreatingOutputFile err), dest, [OpenFile])
      | None \<Rightarrow>
          (case Truncate (truncateErr w) (maxEnd + 1) [] of
             Inl err \<Rightarrow>
               (Some (ErrPreallocating err), Some [], [OpenFile, TruncateTo (maxEnd + 1)])
           | Inr file \<Rightarrow>
               (case runTasks (task w) ranges (lockOrder w) file of
                  (results, file') \<Rightarrow>
                    (let errorsList = collectErrors ranges (map_of results) (sendOrder w)
                     in (if length errorsList > 0
                         then Some (Encountered (length errorsList) errorsList)
                         else None,
                         Some file',
                         [OpenFile, TruncateTo (maxEnd + 1)] @ map Go [0..<length ranges])))))"

section \<open>main\<close>

text \<open>The lines \<open>main\<close> prints; file names and the sizes in MB are left out.\<close>

datatype message =
    Usage
  | ErrorReadingConfig error
  | ErrorParsingConfig error
  | DownloadingIdx
  | ErrorDownloadingIdx error
  | ErrorParsingIdx parseError
  | ErrorGeneratingRanges error
  | DownloadRangesHeader
  | RangeLine nat int64 int64 int64
  | TotalLine int64
  | DownloadingTo
  | ErrorDownloading downloadError
  | Completed

text \<open>
  What \<open>main\<close> meets: the arguments, the results of \<open>os.ReadFile\<close>, of
  \<open>json.Unmarshal\<close> (the configuration it fills in) and of \<open>downloadFile\<close>, what
  \<open>parseIDXFile\<close> finds at the index path, and what \<open>downloadRanges\<close> meets.
\<close>

record mainWorld =
  Args :: "string list"
  readFile :: "error + string"
  unmarshal :: "error + Config"
  downloadFileResult :: "error option"
  idxFile :: "error + scanned"
  transfer :: world

text \<open>The loop that prints the ranges and sums their sizes (lines 330-335).\<close>

fun printRanges :: "nat \<Rightarrow> RangeDownload list \<Rightarrow> message list" where
  "printRanges i [] = []"
| "printRanges i (r # rs) =
     RangeLine (i + 1) (Start r) (End r) (End r - Start r + 1) # printRanges (i + 1) rs"

fun totalSize :: "RangeDownload list \<Rightarrow> int64" where
  "totalSize [] = 0"
| "totalSize (r # rs) = (End r - Start r + 1) + totalSize rs"

text \<open>\<open>main\<close> (lines 284-347): what it prints, the destination file, and what
  \<open>downloadRanges\<close> did.\<close>

definition main :: "mainWorld \<Rightarrow> contents option \<Rightarrow> message list \<times> contents option \<times> event list" where
  "main w dest =
     (if length (Args w) \<noteq> 2 then ([Usage], dest, [])
      else
     (case readFile w of
        Inl err \<Rightarrow> ([ErrorReadingConfig err], dest, [])
      | Inr configFile \<Rightarrow>
     (case unmarshal w of
        Inl err \<Rightarrow> ([ErrorParsingConfig err], dest, [])
      | Inr config \<Rightarrow>
     (case downloadFileResult w of
        Some err \<Rightarrow> ([DownloadingIdx, ErrorDownloadingIdx err], dest, [])
      | None \<Rightarrow>
     (case parseIDXFile (idxFile w) of
        Inl err \<Rightarrow> ([DownloadingIdx, ErrorParsingIdx err], dest, [])
      | Inr parameters \<Rightarrow>
     (case generateRanges parameters (Parameters config) of
        (ranges, Some err) \<Rightarrow> ([DownloadingIdx, ErrorGeneratingRanges err], dest, [])
      | (ranges, None) \<Rightarrow>
     (case downloadRanges (transfer w) ranges dest of
        (Some err, dest', events) \<Rightarrow>
          ([DownloadingIdx, DownloadRangesHeader] @ printRanges 0 ranges
             @ [TotalLine (totalSize ranges), DownloadingTo, ErrorDownloading err],
           dest', events)
      | (None, dest', events) \<Rightarrow>
          ([DownloadingIdx, DownloadRangesHeader] @ printRanges 0 ranges
             @ [TotalLine (totalSize ranges), DownloadingTo, Completed],
           dest', events))))))))"



section \<open>Specification vocabulary\<close>

text \<open>
  What the specification says about entries and ranges, in its own words. An offset
  \<open>x\<close> lies in a range when \<open>Start \<le> x \<le> End\<close>, both read as signed integers.
\<close>

definition inRange :: "RangeDownload \<Rightarrow> int \<Rightarrow> bool" where
  "inRange r x = (sint (Start r) \<le> x \<and> x \<le> sint (End r))"

definition rangesContaining :: "RangeDownload list \<Rightarrow> int \<Rightarrow> RangeDownload list" where
  "rangesContaining rs x = filter (\<lambda>m. inRange m x) rs"

text \<open>The ByteRange invariant of the data model: \<open>start >= 0\<close> and \<open>start <= end\<close>.\<close>

definition validRange :: "RangeDownload \<Rightarrow> bool" where
  "validRange r = (0 \<le> sint (Start r) \<and> sint (Start r) \<le> sint (End r))"

text \<open>The range list is sorted ascending by \<open>Start\<close>.\<close>

definition startsSorted :: "RangeDownload list \<Rightarrow> bool" where
  "startsSorted rs = sorted (map (\<lambda>r. sint (Start r)) rs)"

text \<open>
  The index invariant on \<open>byteOffset\<close>, in its parts: non-negative, non-decreasing along
  the sequence. Two variants a claim needs: strictly increasing, and bounded so that the
  1 MiB buffer of the last entry stays below \<open>2^63\<close>. \<open>offsetsAboveMin\<close> is the weakest
  bound that keeps \<open>Offset - 1\<close> from wrapping: no offset is \<open>-2^63\<close>.
\<close>

definition offsetsNonNegative :: "GFSParameter list \<Rightarrow> bool" where
  "offsetsNonNegative es = (\<forall>e \<in> set es. 0 \<le> sint (Offset e))"

definition offsetsNonDecreasing :: "GFSParameter list \<Rightarrow> bool" where
  "offsetsNonDecreasing es = sorted (map (\<lambda>e. sint (Offset e)) es)"

definition offsetsIncreasing :: "GFSParameter list \<Rightarrow> bool" where
  "offsetsIncreasing es = sorted_wrt (\<lambda>a b. sint (Offset a) < sint (Offset b)) es"

definition offsetsBounded :: "GFSParameter list \<Rightarrow> bool" where
  "offsetsBounded es = (\<forall>e \<in> set es. sint (Offset e) \<le> 2 ^ 63 - 1 - 1048576)"

definition offsetsAboveMin :: "GFSParameter list \<Rightarrow> bool" where
  "offsetsAboveMin es = (\<forall>e \<in> set es. - (2 ^ 63) < sint (Offset e))"

text \<open>
  Step 1 of the Range Selector, as the specification words it: an entry is included iff
  its parameter name is a key of the request and the level list is empty or holds the
  entry's level.
\<close>

definition included :: "requested \<Rightarrow> GFSParameter \<Rightarrow> bool" where
  "included req e =
     (case req (Parameter e) of
        None \<Rightarrow> False
      | Some levels \<Rightarrow> levels = [] \<or> Level e \<in> set levels)"



text \<open>
  The Index Parser, as the specification words it: the fields of a line, a valid
  integer (what \<open>strconv\<close> accepts), a line that is not skipped, and the entry of such a
  line.
\<close>

definition lineFields :: "string \<Rightarrow> string list" where
  "lineFields line = Split line CHR '':''"

definition validInteger :: "string \<Rightarrow> bool" where
  "validInteger s = (ParseInt s \<noteq> None)"

definition wellFormedLine :: "string \<Rightarrow> bool" where
  "wellFormedLine line =
     (6 \<le> length (lineFields line) \<and> validInteger (lineFields line ! 0) \<and> validInteger (lineFields line ! 1))"

definition lineEntry :: "string \<Rightarrow> GFSParameter" where
  "lineEntry line =
     \<lparr>Number = the (Atoi (lineFields line ! 0)), Offset = the (ParseInt (lineFields line ! 1)),
      Date = TrimPrefix (lineFields line ! 2) ''d='',
      Parameter = lineFields line ! 3, Level = lineFields line ! 4, Type = lineFields line ! 5\<rparr>"

text \<open>
  The Transfer Orchestrator. The outcome of the fetch of one range (\<open>None\<close>: it
  succeeded) and the bytes it writes, which depend on nothing but what the task itself
  meets.
\<close>

definition fetchOutcome :: "taskWorld \<Rightarrow> RangeDownload \<Rightarrow> fetchError option" where
  "fetchOutcome tw r = fst (downloadRange tw r [])"

definition written :: "taskWorld \<Rightarrow> RangeDownload \<Rightarrow> (nat \<times> byte list) option" where
  "written tw r =
     (if newRequestErr tw = None \<and> doErr tw = None \<and> StatusCode tw = 206 \<and> openErr tw = None
         \<and> Seek (seekErr tw) (Start r) = None
      then Some (nat (sint (Start r)), Body tw) else None)"

text \<open>Every task runs once: the order is a rearrangement of the indices of the ranges.\<close>

definition validSchedule :: "nat \<Rightarrow> nat list \<Rightarrow> bool" where
  "validSchedule n order = (mset order = mset [0..<n])"

text \<open>The failed ranges with their bounds and errors, in the order of the plan.\<close>

definition failures :: "(nat \<Rightarrow> taskWorld) \<Rightarrow> RangeDownload list \<Rightarrow> rangeFailure list" where
  "failures tw ranges =
     map (\<lambda>i. ErrDownloadingRange (Start (ranges ! i)) (End (ranges ! i))
                (the (fetchOutcome (tw i) (ranges ! i))))
       (filter (\<lambda>i. fetchOutcome (tw i) (ranges ! i) \<noteq> None) [0..<length ranges])"

text \<open>
  The file holds the bytes \<open>d\<close> from position \<open>off\<close> on; two writes overlap when they
  share a position.
\<close>

definition holds :: "contents \<Rightarrow> nat \<Rightarrow> byte list \<Rightarrow> bool" where
  "holds f off d = (take (length d) (drop off f) = d)"

definition overlaps :: "(nat \<times> byte list) option \<Rightarrow> (nat \<times> byte list) option \<Rightarrow> bool" where
  "overlaps a b =
     (case a of
        None \<Rightarrow> False
      | Some (o1, d1) \<Rightarrow>
          (case b of
             None \<Rightarrow> False
           | Some (o2, d2) \<Rightarrow> o1 < o2 + length d2 \<and> o2 < o1 + length d1))"

section \<open>Proof devices\<close>

text \<open>
  \<open>mergeLoop\<close> with its last merged range held apart: \<open>coalesce l rest\<close> is what the loop
  leaves from \<open>l\<close> on (lemma \<open>mergeLoop_coalesce\<close> below).
\<close>

fun coalesce :: "RangeDownload \<Rightarrow> RangeDownload list \<Rightarrow> RangeDownload list" where
  "coalesce l [] = [l]"
| "coalesce l (c # rest) =
     (if Start c <=s End l + 1
      then coalesce (if End l <s End c then l\<lparr>End := End c\<rparr> else l) rest
      else l # coalesce c rest)"


definition noWrap :: "RangeDownload list \<Rightarrow> bool" where
  "noWrap rs = (\<forall>r \<in> set (butlast rs). sint (End r) < 2 ^ 63 - 1)"

definition separated :: "RangeDownload list \<Rightarrow> bool" where
  "separated rs = sorted_wrt (\<lambda>a b. sint (End a) + 1 < sint (Start b)) rs"

text \<open>The effect of a task on the file, from what it writes.\<close>

definition applyWrite :: "(nat \<times> byte list) option \<Rightarrow> contents \<Rightarrow> contents" where
  "applyWrite wr f = (case wr of None \<Rightarrow> f | Some (off, d) \<Rightarrow> writeAt f off d)"

section \<open>Example inputs\<close>

text \<open>An index entry with the given offset, parameter and level; the other fields play no part.\<close>

definition entry :: "int64 \<Rightarrow> string \<Rightarrow> string \<Rightarrow> GFSParameter" where
  "entry off param level =
     \<lparr>Number = 0, Offset = off, Date = [], Parameter = param, Level = level, Type = []\<rparr>"

definition allLevelsOfA :: requested where
  "allLevelsOfA = [''A'' \<mapsto> []]"

text \<open>
  Two included entries at 0 and 500, an entry at 600 that is not requested, and a last
  entry at 900.
\<close>

definition gapIndex :: "GFSParameter list" where
  "gapIndex = [entry 0 ''A'' ''sfc'', entry 500 ''A'' ''sfc'', entry 600 ''B'' ''sfc'',
               entry 900 ''C'' ''sfc'']"

text \<open>An index in non-decreasing order whose first two offsets are \<open>-2^63\<close>.\<close>

definition minIndex :: "GFSParameter list" where
  "minIndex = [entry (- 9223372036854775808) ''A'' ''sfc'',
               entry (- 9223372036854775808) ''B'' ''sfc'', entry 5 ''A'' ''sfc'']"


definition swappedIndex :: "GFSParameter list" where
  "swappedIndex = [entry 100 ''A'' ''sfc'', entry 200 ''B'' ''sfc'', entry 0 ''A'' ''sfc'',
                   entry 50 ''B'' ''sfc'']"

text \<open>An index in which two consecutive entries share the offset 5.\<close>

definition duplicateIndex :: "GFSParameter list" where
  "duplicateIndex = [entry 0 ''A'' ''sfc'', entry 3 ''B'' ''sfc'', entry 5 ''A'' ''sfc'',
                     entry 5 ''B'' ''sfc'']"

text \<open>Two entries at offset 0, the first requested: its range is \<open>[0,-1]\<close>.\<close>

definition zeroIndex :: "GFSParameter list" where
  "zeroIndex = [entry 0 ''A'' ''sfc'', entry 0 ''B'' ''sfc'']"

text \<open>Six scanned lines, of which the first and the last have six fields and two integers.\<close>

definition exampleLines :: "string list" where
  "exampleLines =
     [''1:0:d=2024010100:TMP:surface:anl:'', ''garbage'', ''x:5:d=1:A:B:C'',
      ''2:5x:d=1:A:B:C'', [], ''3:100:2024:UGRD:10 m above ground:anl:extra'']"

text \<open>
  An index text of five lines, the first ended by CR LF, the fourth empty and the last
  without a newline; and a text whose second line is 65536 bytes long.
\<close>

definition exampleText :: string where
  "exampleText =
     ''1:0:d=2024010100:TMP:surface:anl:'' @ [CHR 0x0D, CHR 0x0A]
     @ ''garbage'' @ [CHR 0x0A]
     @ ''x:5:d=1:A:B:C'' @ [CHR 0x0A]
     @ [CHR 0x0A]
     @ ''3:100:2024:UGRD:10 m above ground:anl:extra''"

definition longLineText :: string where
  "longLineText =
     ''1:0:d=2024:TMP:surface:anl'' @ [CHR 0x0A] @ replicate 65536 (CHR ''a'')"

text \<open>
  A task that succeeds and writes \<open>body\<close>. Five ranges of two bytes each; the fetch of
  the second meets status 200 and that of the fourth a timeout, the others write two
  bytes. The tasks take the mutex in the order 4, 1, 0, 3, 2.
\<close>

definition okTask :: "byte list \<Rightarrow> taskWorld" where
  "okTask body = \<lparr>newRequestErr = None, doErr = None, StatusCode = 206, Body = body,
     openErr = None, seekErr = None, copyErr = None\<rparr>"

definition fiveTasks :: "nat \<Rightarrow> taskWorld" where
  "fiveTasks i =
     (if i = 1 then (okTask [])\<lparr>StatusCode := 200\<rparr>
      else if i = 3 then (okTask [])\<lparr>doErr := Some (Error ''timeout'')\<rparr>
      else okTask [of_nat i + 1, of_nat i + 1])"

definition fiveRanges :: "RangeDownload list" where
  "fiveRanges = [\<lparr>Start = 0, End = 1\<rparr>, \<lparr>Start = 3, End = 4\<rparr>, \<lparr>Start = 6, End = 7\<rparr>,
                 \<lparr>Start = 9, End = 10\<rparr>, \<lparr>Start = 12, End = 13\<rparr>]"

definition fiveWorld :: world where
  "fiveWorld = \<lparr>createErr = None, truncateErr = None, task = fiveTasks,
     lockOrder = [4, 1, 0, 3, 2], sendOrder = [3, 0, 2, 1, 4]\<rparr>"

text \<open>The same with a file that cannot be created, and with one that cannot be extended.\<close>

definition deniedWorld :: world where
  "deniedWorld = fiveWorld\<lparr>createErr := Some (Error ''denied'')\<rparr>"

definition fullWorld :: world where
  "fullWorld = fiveWorld\<lparr>truncateErr := Some (Error ''full'')\<rparr>"

text \<open>Worlds in which every call succeeds, with no task and with one task that writes nothing.\<close>

definition quietWorld :: world where
  "quietWorld = \<lparr>createErr = None, truncateErr = None, task = (\<lambda>i. okTask []),
     lockOrder = [], sendOrder = []\<rparr>"

definition oneTaskWorld :: world where
  "oneTaskWorld = \<lparr>createErr = None, truncateErr = None, task = (\<lambda>i. okTask []),
     lockOrder = [0], sendOrder = [0]\<rparr>"

text \<open>A run of \<open>main\<close> in which no line of the index matches the request.\<close>

definition emptyPlanWorld :: mainWorld where
  "emptyPlanWorld = \<lparr>Args = [''gfs_downloader'', ''config.json''], readFile = Inr ''{}'',
     unmarshal = Inr \<lparr>IdxURL = ''http://host/gfs.idx'', Parameters = [''T'' \<mapsto> []]\<rparr>,
     downloadFileResult = None,
     idxFile = Inr (Scanned exampleLines None),
     transfer = quietWorld\<rparr>"

section \<open>Signed arithmetic without overflow\<close>

lemma sint_plus1: "sint (a :: int64) < 2 ^ 63 - 1 \<Longrightarrow> sint (a + 1) = sint a + 1"
proof -
  assume h: "sint a < 2 ^ 63 - 1"
  have lo: "- (2 ^ 63) \<le> sint a" using sint_ge [of a] by simp
  have "sint (a + 1) = signed_take_bit 63 (sint a + 1)"
    by (simp add: sint_word_ariths)
  also have "\<dots> = sint a + 1"
    using h lo by (intro signed_take_bit_int_eq_self) auto
  finally show ?thesis .
qed

lemma sint_minus1: "- (2 ^ 63) < sint (a :: int64) \<Longrightarrow> sint (a - 1) = sint a - 1"
proof -
  assume h: "- (2 ^ 63) < sint a"
  have hi: "sint a < 2 ^ 63" using sint_lt [of a] by simp
  have "sint (a - 1) = signed_take_bit 63 (sint a - 1)"
    by (simp add: sint_word_ariths)
  also have "\<dots> = sint a - 1"
    using h hi by (intro signed_take_bit_int_eq_self) auto
  finally show ?thesis .
qed

lemma sint_plus_MiB:
  "0 \<le> sint (a :: int64) \<Longrightarrow> sint a \<le> 2 ^ 63 - 1 - 1048576
    \<Longrightarrow> sint (a + 1024 * 1024) = sint a + 1048576"
proof -
  assume h: "sint a \<le> 2 ^ 63 - 1 - 1048576" and lo: "0 \<le> sint a"
  have "sint (a + 1024 * 1024) = signed_take_bit 63 (sint a + 1048576)"
    by (simp add: sint_word_ariths)
  also have "\<dots> = sint a + 1048576"
    using h lo by (intro signed_take_bit_int_eq_self) auto
  finally show ?thesis .
qed

section \<open>The merge loop\<close>

lemma mergeLoop_coalesce: "mergeLoop (ms @ [l]) rest = ms @ coalesce l rest"
proof (induction rest arbitrary: ms l)
  case Nil
  show ?case by simp
next
  case (Cons c rest)
  have app: "mergeLoop (ms @ [l, c]) rest = ms @ l # coalesce c rest"
    using Cons.IH [of "ms @ [l]" c] by simp
  show ?case using Cons.IH [of ms] app by simp
qed

lemma mergeRanges_Cons: "mergeRanges (r # rs) = coalesce r rs"
  using mergeLoop_coalesce [of "[]" r rs] by (cases rs) (simp_all add: mergeRanges_def)

lemma mergeRanges_Nil: "mergeRanges [] = []"
  by (simp add: mergeRanges_def)








lemma coalesce_Starts: "Start ` set (coalesce l rest) \<subseteq> Start ` set (l # rest)"
proof (induction rest arbitrary: l)
  case Nil
  show ?case by simp
next
  case (Cons c rest)
  show ?case
  proof (cases "Start c <=s End l + 1")
    case True
    let ?l' = "if End l <s End c then l\<lparr>End := End c\<rparr> else l"
    have a: "Start ` set (coalesce ?l' rest) \<subseteq> Start ` set (?l' # rest)" by (rule Cons.IH)
    have b: "Start ` set (?l' # rest) \<subseteq> Start ` set (l # c # rest)" by auto
    have c: "coalesce l (c # rest) = coalesce ?l' rest" using True by simp
    show ?thesis unfolding c by (rule subset_trans [OF a b])
  next
    case False
    then show ?thesis using Cons.IH [of c] by auto
  qed
qed


lemma coalesce_covers:
  "startsSorted (l # rest) \<Longrightarrow> r \<in> set (l # rest) \<Longrightarrow> inRange r x
    \<Longrightarrow> \<exists>m \<in> set (coalesce l rest). inRange m x"
proof (induction rest arbitrary: l r)
  case Nil
  then show ?case by simp
next
  case (Cons c rest)
  show ?case
  proof (cases "Start c <=s End l + 1")
    case True
    let ?l' = "if End l <s End c then l\<lparr>End := End c\<rparr> else l"
    have s': "startsSorted (?l' # rest)" using Cons.prems(1) by (auto simp: startsSorted_def)
    have "\<exists>r' \<in> set (?l' # rest). inRange r' x"
    proof (cases "r \<in> set rest")
      case True
      then show ?thesis using Cons.prems(3) by auto
    next
      case False
      then have "r = l \<or> r = c" using Cons.prems(2) by auto
      moreover have "sint (Start l) \<le> sint (Start c)"
        using Cons.prems(1) by (simp add: startsSorted_def)
      ultimately have "inRange ?l' x"
        using Cons.prems(3) by (auto simp: inRange_def word_sless_alt)
      then show ?thesis by simp
    qed
    then obtain r' where "r' \<in> set (?l' # rest)" "inRange r' x" by blast
    then have "\<exists>m \<in> set (coalesce ?l' rest). inRange m x"
      using Cons.IH [OF s'] by blast
    then show ?thesis using True by simp
  next
    case False
    have sc: "startsSorted (c # rest)" using Cons.prems(1) by (simp add: startsSorted_def)
    show ?thesis
    proof (cases "r = l")
      case True
      then show ?thesis using False Cons.prems(3) by simp
    next
      case rl: False
      then have "r \<in> set (c # rest)" using Cons.prems(2) by simp
      then have "\<exists>m \<in> set (coalesce c rest). inRange m x"
        using Cons.IH [OF sc] Cons.prems(3) by blast
      then show ?thesis using False by simp
    qed
  qed
qed

lemma separated_coalesce:
  "startsSorted (l # rest) \<Longrightarrow> noWrap (l # rest) \<Longrightarrow> separated (coalesce l rest)"
proof (induction rest arbitrary: l)
  case Nil
  show ?case by (simp add: separated_def)
next
  case (Cons c rest)
  have El: "sint (End l) < 2 ^ 63 - 1" using Cons.prems(2) by (simp add: noWrap_def)
  show ?case
  proof (cases "Start c <=s End l + 1")
    case True
    let ?l' = "if End l <s End c then l\<lparr>End := End c\<rparr> else l"
    have s': "startsSorted (?l' # rest)" using Cons.prems(1) by (auto simp: startsSorted_def)
    have n': "noWrap (?l' # rest)" using Cons.prems(2) by (auto simp: noWrap_def split: if_splits)
    have "separated (coalesce ?l' rest)" using s' n' by (rule Cons.IH)
    then show ?thesis using True by simp
  next
    case False
    have sc: "startsSorted (c # rest)" using Cons.prems(1) by (simp add: startsSorted_def)
    have nc: "noWrap (c # rest)" using Cons.prems(2) by (auto simp: noWrap_def split: if_splits)
    have ih: "separated (coalesce c rest)" using sc nc by (rule Cons.IH)
    have gap: "sint (End l) + 1 < sint (Start c)"
      using False El by (simp add: word_sle_eq sint_plus1)
    have "\<forall>m \<in> set (coalesce c rest). sint (End l) + 1 < sint (Start m)"
    proof
      fix m assume "m \<in> set (coalesce c rest)"
      then have "Start m \<in> Start ` set (c # rest)" using coalesce_Starts [of c rest] by blast
      then have "sint (Start c) \<le> sint (Start m)"
        using sc by (auto simp: startsSorted_def)
      then show "sint (End l) + 1 < sint (Start m)" using gap by simp
    qed
    then show ?thesis using False ih by (simp add: separated_def)
  qed
qed

lemma separated_at_most_one:
  "separated rs \<Longrightarrow> length (filter (\<lambda>m. inRange m x) rs) \<le> 1"
proof (induction rs)
  case Nil
  show ?case by simp
next
  case (Cons a rs)
  have sep: "separated rs" and gap: "\<forall>b \<in> set rs. sint (End a) + 1 < sint (Start b)"
    using Cons.prems by (simp_all add: separated_def)
  show ?case
  proof (cases "inRange a x")
    case True
    then have "\<forall>b \<in> set rs. \<not> inRange b x" using gap by (fastforce simp: inRange_def)
    then have "filter (\<lambda>m. inRange m x) rs = []" by (simp add: filter_empty_conv)
    then show ?thesis by simp
  next
    case False
    then show ?thesis using Cons.IH [OF sep] by simp
  qed
qed

lemma separated_disjoint:
  "separated rs \<Longrightarrow> i < j \<Longrightarrow> j < length rs \<Longrightarrow> \<not> (inRange (rs ! i) x \<and> inRange (rs ! j) x)"
proof -
  assume "separated rs" "i < j" "j < length rs"
  then have "sint (End (rs ! i)) + 1 < sint (Start (rs ! j))"
    by (simp add: separated_def sorted_wrt_iff_nth_less)
  then show ?thesis by (auto simp: inRange_def)
qed

lemma validRange_coalesce:
  "\<forall>r \<in> set (l # rest). validRange r \<Longrightarrow> \<forall>m \<in> set (coalesce l rest). validRange m"
proof (induction rest arbitrary: l)
  case Nil
  then show ?case by simp
next
  case (Cons c rest)
  show ?case
  proof (cases "Start c <=s End l + 1")
    case True
    let ?l' = "if End l <s End c then l\<lparr>End := End c\<rparr> else l"
    have "validRange ?l'" using Cons.prems by (auto simp: validRange_def word_sless_alt)
    then have "\<forall>r \<in> set (?l' # rest). validRange r" using Cons.prems by simp
    then have "\<forall>m \<in> set (coalesce ?l' rest). validRange m" by (rule Cons.IH)
    then show ?thesis using True by simp
  next
    case False
    have "\<forall>r \<in> set (c # rest). validRange r" using Cons.prems by simp
    then have "\<forall>m \<in> set (coalesce c rest). validRange m" by (rule Cons.IH)
    then show ?thesis using False Cons.prems by simp
  qed
qed

lemma validRange_mergeRanges:
  "\<forall>r \<in> set rs. validRange r \<Longrightarrow> \<forall>m \<in> set (mergeRanges rs). validRange m"
  using validRange_coalesce by (cases rs) (simp_all only: mergeRanges_Nil mergeRanges_Cons)

section \<open>The selection loop\<close>

lemma levelLoop_set: "levelLoop levels l \<longleftrightarrow> l \<in> set levels"
  by (induction levels) auto

lemma levelRequested_iff: "levelRequested levels l \<longleftrightarrow> levels = [] \<or> l \<in> set levels"
  by (simp add: levelRequested_def levelLoop_set)

lemma collectRanges_Cons:
  "collectRanges (p # rest) req =
     (if included req p then \<lparr>Start = Offset p, End = endOffset p rest\<rparr> # collectRanges rest req
      else collectRanges rest req)"
  by (simp add: included_def levelRequested_iff split: option.splits)

lemma collectRanges_Starts:
  "Start ` set (collectRanges es req) \<subseteq> Offset ` set es"
  by (induction es) (auto split: option.splits)

lemma startsSorted_collectRanges:
  "offsetsNonDecreasing es \<Longrightarrow> startsSorted (collectRanges es req)"
proof (induction es)
  case Nil
  show ?case by (simp add: startsSorted_def)
next
  case (Cons p rest)
  have ih: "startsSorted (collectRanges rest req)"
    using Cons by (simp add: offsetsNonDecreasing_def)
  have "\<forall>r \<in> set (collectRanges rest req). sint (Offset p) \<le> sint (Start r)"
  proof
    fix r assume "r \<in> set (collectRanges rest req)"
    then have "Start r \<in> Offset ` set rest" using collectRanges_Starts [of rest req] by blast
    then show "sint (Offset p) \<le> sint (Start r)"
      using Cons.prems by (auto simp: offsetsNonDecreasing_def)
  qed
  then show ?case using ih by (auto simp: startsSorted_def split: option.splits)
qed

lemma noWrap_collectRanges:
  "\<forall>e \<in> set es. - (2 ^ 63) < sint (Offset e) \<Longrightarrow> noWrap (collectRanges es req)"
proof (induction es)
  case Nil
  show ?case by (simp add: noWrap_def)
next
  case (Cons p rest)
  have ih: "noWrap (collectRanges rest req)" using Cons by simp
  have "collectRanges rest req \<noteq> [] \<Longrightarrow> sint (endOffset p rest) < 2 ^ 63 - 1"
  proof -
    assume "collectRanges rest req \<noteq> []"
    then obtain q rest' where r: "rest = q # rest'" by (cases rest) auto
    then have "- (2 ^ 63) < sint (Offset q)" using Cons.prems by simp
    then have "sint (Offset q - 1) = sint (Offset q) - 1" by (rule sint_minus1)
    then show ?thesis using r sint_lt [of "Offset q"] by (simp add: endOffset_def)
  qed
  then show ?case using ih by (auto simp: noWrap_def split: option.splits)
qed



lemma collectRanges_none:
  "\<forall>e \<in> set es. \<not> included req e \<Longrightarrow> collectRanges es req = []"
  by (induction es) (simp_all add: collectRanges_Cons del: collectRanges.simps(2))

lemma validRange_collectRanges:
  "offsetsNonNegative es \<Longrightarrow> offsetsIncreasing es \<Longrightarrow> offsetsBounded es
    \<Longrightarrow> r \<in> set (collectRanges es req) \<Longrightarrow> validRange r"
proof (induction es)
  case Nil
  then show ?case by simp
next
  case (Cons p rest)
  have p0: "0 \<le> sint (Offset p)" and pb: "sint (Offset p) \<le> 2 ^ 63 - 1 - 1048576"
    using Cons.prems by (simp_all add: offsetsNonNegative_def offsetsBounded_def)
  have "validRange \<lparr>Start = Offset p, End = endOffset p rest\<rparr>"
  proof (cases rest)
    case Nil
    then show ?thesis using p0 pb sint_plus_MiB [OF p0 pb] by (simp add: validRange_def endOffset_def)
  next
    case (Cons q rest')
    then have lt: "sint (Offset p) < sint (Offset q)"
      using Cons.prems(2) by (simp add: offsetsIncreasing_def)
    then have "- (2 ^ 63) < sint (Offset q)" using p0 by simp
    then have "sint (Offset q - 1) = sint (Offset q) - 1" by (rule sint_minus1)
    then show ?thesis using Cons lt p0 by (simp add: validRange_def endOffset_def)
  qed
  moreover have "r \<in> set (collectRanges rest req) \<Longrightarrow> validRange r"
    using Cons by (simp add: offsetsNonNegative_def offsetsIncreasing_def offsetsBounded_def)
  ultimately show ?case using Cons.prems(4)
    by (auto simp: collectRanges_Cons simp del: collectRanges.simps(2) split: if_splits)
qed

lemmas eval_defs = generateRanges_def mergeRanges_def levelRequested_def endOffset_def
  entry_def allLevelsOfA_def rangesContaining_def inRange_def word_sle_eq word_sless_alt

section \<open>Claims about generateRanges\<close>

text \<open>
  Claim C1, as amended. For every entry sequence whose offsets are non-decreasing and
  none of which is \<open>-2^63\<close> (so for every sequence that meets the index invariant), and
  every request: each offset in the provisional range of an included entry lies in
  exactly one range of the merged output, and no offset lies in two ranges of the output.
\<close>

theorem coverage:
  assumes "offsetsNonDecreasing es" and "offsetsAboveMin es"
  shows "(\<forall>r x. r \<in> set (collectRanges es req) \<and> inRange r x
            \<longrightarrow> length (rangesContaining (fst (generateRanges es req)) x) = 1)
       \<and> (\<forall>i j x. i < j \<and> j < length (fst (generateRanges es req))
            \<longrightarrow> \<not> (inRange (fst (generateRanges es req) ! i) x
                   \<and> inRange (fst (generateRanges es req) ! j) x))"
proof (cases "collectRanges es req")
  case Nil
  then show ?thesis by (simp add: generateRanges_def mergeRanges_Nil)
next
  case (Cons p ps)
  have out: "fst (generateRanges es req) = coalesce p ps"
    using Cons by (simp add: generateRanges_def mergeRanges_Cons)
  have ss: "startsSorted (p # ps)"
    using startsSorted_collectRanges [OF assms(1), of req] Cons by simp
  have nw: "noWrap (p # ps)"
    using noWrap_collectRanges [of es req] assms(2) Cons by (simp add: offsetsAboveMin_def)
  have sep: "separated (coalesce p ps)" using ss nw by (rule separated_coalesce)
  have one: "length (rangesContaining (coalesce p ps) x) = 1"
    if a: "r \<in> set (p # ps)" and b: "inRange r x" for r x
  proof -
    obtain m where "m \<in> set (coalesce p ps)" "inRange m x"
      using coalesce_covers [OF ss a b] by blast
    then have "rangesContaining (coalesce p ps) x \<noteq> []"
      by (auto simp: rangesContaining_def filter_empty_conv)
    then have "1 \<le> length (rangesContaining (coalesce p ps) x)"
      by (cases "rangesContaining (coalesce p ps) x") simp_all
    moreover have "length (rangesContaining (coalesce p ps) x) \<le> 1"
      using separated_at_most_one [OF sep] by (simp add: rangesContaining_def)
    ultimately show ?thesis by simp
  qed
  show ?thesis
    unfolding out using one separated_disjoint [OF sep] Cons by auto
qed

theorem coverage_witness:
  "offsetsNonDecreasing gapIndex \<and> offsetsAboveMin gapIndex
   \<and> \<lparr>Start = 500, End = 599\<rparr> \<in> set (collectRanges gapIndex allLevelsOfA)
   \<and> inRange \<lparr>Start = 500, End = 599\<rparr> 550
   \<and> fst (generateRanges gapIndex allLevelsOfA) = [\<lparr>Start = 0, End = 599\<rparr>]
   \<and> length (rangesContaining (fst (generateRanges gapIndex allLevelsOfA)) 550) = 1"
proof -
  have h1: "offsetsNonDecreasing gapIndex"
    by (simp add: offsetsNonDecreasing_def gapIndex_def entry_def)
  have h2: "offsetsAboveMin gapIndex"
    by (simp add: offsetsAboveMin_def gapIndex_def entry_def)
  have h3: "\<lparr>Start = 500, End = 599\<rparr> \<in> set (collectRanges gapIndex allLevelsOfA)"
    by (simp add: gapIndex_def eval_defs)
  have h4: "inRange \<lparr>Start = 500, End = 599\<rparr> 550" by (simp add: inRange_def)
  have h5: "fst (generateRanges gapIndex allLevelsOfA) = [\<lparr>Start = 0, End = 599\<rparr>]"
    by (simp add: gapIndex_def eval_defs)
  from coverage [OF h1 h2, of allLevelsOfA] h3 h4
  have "length (rangesContaining (fst (generateRanges gapIndex allLevelsOfA)) 550) = 1"
    by blast
  with h1 h2 h3 h4 h5 show ?thesis by simp
qed

text \<open>
  The claim as stated, for every ordered entry sequence, fails where the first two
  offsets are \<open>-2^63\<close>: the first provisional end wraps to \<open>2^63 - 1\<close>, \<open>last.End+1\<close> wraps
  back, the range of the entry at 5 is appended, and offset 5 lies in two output ranges.
\<close>

theorem coverage_counterexample:
  "offsetsNonDecreasing minIndex
   \<and> \<lparr>Start = 5, End = 1048581\<rparr> \<in> set (collectRanges minIndex allLevelsOfA)
   \<and> inRange \<lparr>Start = 5, End = 1048581\<rparr> 5
   \<and> fst (generateRanges minIndex allLevelsOfA)
       = [\<lparr>Start = - 9223372036854775808, End = 9223372036854775807\<rparr>,
          \<lparr>Start = 5, End = 1048581\<rparr>]
   \<and> length (rangesContaining (fst (generateRanges minIndex allLevelsOfA)) 5) = 2"
  by (simp add: offsetsNonDecreasing_def minIndex_def eval_defs)

text \<open>
  Where the offsets are out of order the merge drops coverage: the range \<open>[0,49]\<close> is
  absorbed by \<open>[100,199]\<close>, whose start is not lowered.
\<close>

lemma coverage_lost_when_unordered:
  "\<lparr>Start = 0, End = 49\<rparr> \<in> set (collectRanges swappedIndex allLevelsOfA)
   \<and> inRange \<lparr>Start = 0, End = 49\<rparr> 7
   \<and> fst (generateRanges swappedIndex allLevelsOfA) = [\<lparr>Start = 100, End = 199\<rparr>]
   \<and> rangesContaining (fst (generateRanges swappedIndex allLevelsOfA)) 7 = []"
  by (simp add: swappedIndex_def eval_defs)




text \<open>
  Claim C3, as amended. For every entry sequence whose offsets are non-negative,
  strictly increasing and at most \<open>2^63 - 1 - 1048576\<close>, and every request, every range
  of the output satisfies \<open>Start >= 0\<close> and \<open>Start <= End\<close>.
\<close>

theorem ranges_valid:
  assumes "offsetsNonNegative es" and "offsetsIncreasing es" and "offsetsBounded es"
  shows "\<forall>r \<in> set (fst (generateRanges es req)). validRange r"
proof -
  have "\<forall>r \<in> set (collectRanges es req). validRange r"
    using validRange_collectRanges [OF assms] by blast
  then show ?thesis unfolding generateRanges_def fst_conv by (rule validRange_mergeRanges)
qed

theorem ranges_valid_witness:
  "offsetsNonNegative gapIndex \<and> offsetsIncreasing gapIndex \<and> offsetsBounded gapIndex
   \<and> fst (generateRanges gapIndex allLevelsOfA) = [\<lparr>Start = 0, End = 599\<rparr>]
   \<and> validRange \<lparr>Start = 0, End = 599\<rparr>"
proof -
  have h1: "offsetsNonNegative gapIndex"
    by (simp add: offsetsNonNegative_def gapIndex_def entry_def)
  have h2: "offsetsIncreasing gapIndex"
    by (simp add: offsetsIncreasing_def gapIndex_def entry_def)
  have h3: "offsetsBounded gapIndex"
    by (simp add: offsetsBounded_def gapIndex_def entry_def)
  have h4: "fst (generateRanges gapIndex allLevelsOfA) = [\<lparr>Start = 0, End = 599\<rparr>]"
    by (simp add: gapIndex_def eval_defs)
  from ranges_valid [OF h1 h2 h3, of allLevelsOfA] h4
  have "validRange \<lparr>Start = 0, End = 599\<rparr>" by simp
  with h1 h2 h3 h4 show ?thesis by simp
qed

text \<open>
  The claim as stated, for non-negative and non-decreasing offsets, fails where an
  included entry and its successor share an offset: the range \<open>[5,4]\<close> is produced.
\<close>

theorem ranges_valid_counterexample:
  "offsetsNonNegative duplicateIndex \<and> offsetsNonDecreasing duplicateIndex
   \<and> fst (generateRanges duplicateIndex allLevelsOfA)
       = [\<lparr>Start = 0, End = 2\<rparr>, \<lparr>Start = 5, End = 4\<rparr>]
   \<and> \<not> Start \<lparr>Start = 5, End = 4\<rparr> <=s End \<lparr>Start = 5, End = 4 :: int64\<rparr>"
  by (simp add: offsetsNonNegative_def offsetsNonDecreasing_def duplicateIndex_def eval_defs)


text \<open>
  Claim C8. When no entry matches the request, \<open>generateRanges\<close> returns the empty range
  list and a nil error, and the total size is 0.
\<close>

theorem no_match_empty:
  assumes "\<forall>e \<in> set es. \<not> included req e"
  shows "generateRanges es req = ([], None) \<and> totalSize (fst (generateRanges es req)) = 0"
  using collectRanges_none [OF assms] by (simp add: generateRanges_def mergeRanges_Nil)

theorem no_match_empty_witness:
  "generateRanges gapIndex [''A'' \<mapsto> [''850mb''], ''T'' \<mapsto> []] = ([], None)
   \<and> totalSize (fst (generateRanges gapIndex [''A'' \<mapsto> [''850mb''], ''T'' \<mapsto> []])) = 0"
proof -
  have "\<forall>e \<in> set gapIndex. \<not> included [''A'' \<mapsto> [''850mb''], ''T'' \<mapsto> []] e"
    by (simp add: gapIndex_def entry_def included_def)
  then show ?thesis by (rule no_match_empty)
qed

text \<open>
  Claim C9. The concrete scenario: entries at 0 (A, sfc), 1000 (B, sfc) and 2500
  (A, 850mb) with the request \<open>{"A": []}\<close> give the ranges \<open>[0,999]\<close> and
  \<open>[2500, 2500+1048576]\<close> in that order, which the merge leaves unchanged, of total size
  \<open>1000 + 1048577\<close>.
\<close>

theorem scenario:
  "generateRanges
     [\<lparr>Number = n1, Offset = 0, Date = d1, Parameter = ''A'', Level = ''sfc'', Type = t1\<rparr>,
      \<lparr>Number = n2, Offset = 1000, Date = d2, Parameter = ''B'', Level = ''sfc'', Type = t2\<rparr>,
      \<lparr>Number = n3, Offset = 2500, Date = d3, Parameter = ''A'', Level = ''850mb'', Type = t3\<rparr>]
     [''A'' \<mapsto> []]
   = ([\<lparr>Start = 0, End = 999\<rparr>, \<lparr>Start = 2500, End = 2500 + 1048576\<rparr>], None)
   \<and> mergeRanges [\<lparr>Start = 0, End = 999\<rparr>, \<lparr>Start = 2500, End = 2500 + 1048576\<rparr>]
       = [\<lparr>Start = 0, End = 999\<rparr>, \<lparr>Start = 2500, End = 2500 + 1048576\<rparr>]
   \<and> totalSize [\<lparr>Start = 0, End = 999\<rparr>, \<lparr>Start = 2500, End = 2500 + 1048576\<rparr>]
       = 1000 + 1048577"
  by (simp add: eval_defs)

section \<open>The index parser\<close>

lemma parseLines_filter: "parseLines lines = map lineEntry (filter wellFormedLine lines)"
  by (induction lines)
     (auto simp: wellFormedLine_def lineEntry_def lineFields_def validInteger_def Atoi_def Let_def
           split: option.splits)

lemma scanTokens_short:
  "\<forall>raw \<in> set raws. length raw < MaxScanTokenSize
    \<Longrightarrow> scanTokens raws readErr = (map dropCR raws, readErr)"
  by (induction raws) simp_all

lemma scanTokens_long:
  "\<exists>raw \<in> set raws. MaxScanTokenSize \<le> length raw
    \<Longrightarrow> snd (scanTokens raws readErr) = Some ErrTooLong"
  by (induction raws) (auto simp: split_beta)

lemma Split_no_sep: "sep \<notin> set xs \<Longrightarrow> Split xs sep = [xs]"
  by (induction xs) auto

lemma Split_append_sep:
  "sep \<notin> set xs \<Longrightarrow> Split (xs @ sep # ys) sep = xs # Split ys sep"
  by (induction xs) auto

lemma textLines_longLineText:
  "textLines longLineText = [''1:0:d=2024:TMP:surface:anl'', replicate 65536 (CHR ''a'')]"
proof -
  have nl: "CHR 0x0A \<notin> set ''1:0:d=2024:TMP:surface:anl''" by simp
  have na: "CHR 0x0A \<notin> set (replicate 65536 (CHR ''a''))" by simp
  have "Split longLineText (CHR 0x0A)
      = [''1:0:d=2024:TMP:surface:anl'', replicate 65536 (CHR ''a'')]"
    unfolding longLineText_def
    using Split_append_sep [OF nl, of "replicate 65536 (CHR ''a'')"] Split_no_sep [OF na]
    by simp
  then show ?thesis by (simp add: textLines_def)
qed

text \<open>
  Claim C5, as amended. For every index text in which every line is shorter than 65536
  bytes and that is read without error, \<open>parseIDXFile\<close> returns one entry for each line
  that has at least six colon-separated fields and whose first and second field are
  valid integers, in the order of the lines, and none for any other line; no such line
  makes it return an error. A text with a line of 65536 bytes or more makes it return
  the scanner's error and no entry at all. Whatever lines the scanner yields, the
  result is an error only when the file cannot be opened or the scanner reports one.
\<close>

theorem parse_index_text:
  "((\<forall>raw \<in> set (textLines text). length raw < MaxScanTokenSize)
      \<longrightarrow> parseIDXFile (Inr (scanText text None))
            = Inr (map lineEntry (filter wellFormedLine (map dropCR (textLines text)))))
   \<and> ((\<exists>raw \<in> set (textLines text). MaxScanTokenSize \<le> length raw)
      \<longrightarrow> parseIDXFile (Inr (scanText text readErr)) = Inl (ErrReadingIdx ErrTooLong))
   \<and> parseIDXFile (Inr (Scanned lines None)) = Inr (map lineEntry (filter wellFormedLine lines))
   \<and> parseIDXFile (Inr (Scanned lines (Some err))) = Inl (ErrReadingIdx err)
   \<and> parseIDXFile (Inl err) = Inl (ErrOpeningIdx err)"
proof -
  have a: "parseIDXFile (Inr (scanText text None))
      = Inr (map lineEntry (filter wellFormedLine (map dropCR (textLines text))))"
    if "\<forall>raw \<in> set (textLines text). length raw < MaxScanTokenSize"
    using scanTokens_short [OF that, of None]
    by (simp add: scanText_def parseIDXFile_def parseLines_filter)
  have b: "parseIDXFile (Inr (scanText text readErr)) = Inl (ErrReadingIdx ErrTooLong)"
    if "\<exists>raw \<in> set (textLines text). MaxScanTokenSize \<le> length raw"
    using scanTokens_long [OF that, of readErr]
    by (simp add: scanText_def parseIDXFile_def split_beta)
  have c: "parseIDXFile (Inr (Scanned lines None)) = Inr (map lineEntry (filter wellFormedLine lines))"
    by (simp add: parseIDXFile_def parseLines_filter)
  have d: "parseIDXFile (Inr (Scanned lines (Some err))) = Inl (ErrReadingIdx err)"
    and e: "parseIDXFile (Inl err) = Inl (ErrOpeningIdx err)"
    by (simp_all add: parseIDXFile_def)
  show ?thesis using a b c d e by blast
qed

theorem parse_index_text_witness:
  "textLines exampleText
     = [''1:0:d=2024010100:TMP:surface:anl:'' @ [CHR 0x0D], ''garbage'', ''x:5:d=1:A:B:C'', [],
        ''3:100:2024:UGRD:10 m above ground:anl:extra'']
   \<and> parseIDXFile (Inr (scanText exampleText None))
       = Inr [\<lparr>Number = 1, Offset = 0, Date = ''2024010100'', Parameter = ''TMP'',
                Level = ''surface'', Type = ''anl''\<rparr>,
              \<lparr>Number = 3, Offset = 100, Date = ''2024'', Parameter = ''UGRD'',
                Level = ''10 m above ground'', Type = ''anl''\<rparr>]
   \<and> parseIDXFile (Inr (scanText longLineText (Some (Error ''read''))))
       = Inl (ErrReadingIdx ErrTooLong)"
proof -
  have l: "textLines exampleText
     = [''1:0:d=2024010100:TMP:surface:anl:'' @ [CHR 0x0D], ''garbage'', ''x:5:d=1:A:B:C'', [],
        ''3:100:2024:UGRD:10 m above ground:anl:extra'']"
    by code_simp
  have short: "\<forall>raw \<in> set (textLines exampleText). length raw < MaxScanTokenSize"
    unfolding l by (simp add: MaxScanTokenSize_def)
  have ev: "map lineEntry (filter wellFormedLine (map dropCR (textLines exampleText)))
       = [\<lparr>Number = 1, Offset = 0, Date = ''2024010100'', Parameter = ''TMP'',
                Level = ''surface'', Type = ''anl''\<rparr>,
              \<lparr>Number = 3, Offset = 100, Date = ''2024'', Parameter = ''UGRD'',
                Level = ''10 m above ground'', Type = ''anl''\<rparr>]"
    by code_simp
  have "parseIDXFile (Inr (scanText exampleText None))
      = Inr (map lineEntry (filter wellFormedLine (map dropCR (textLines exampleText))))"
    using parse_index_text [of exampleText] short by blast
  then have 1: "parseIDXFile (Inr (scanText exampleText None))
       = Inr [\<lparr>Number = 1, Offset = 0, Date = ''2024010100'', Parameter = ''TMP'',
                Level = ''surface'', Type = ''anl''\<rparr>,
              \<lparr>Number = 3, Offset = 100, Date = ''2024'', Parameter = ''UGRD'',
                Level = ''10 m above ground'', Type = ''anl''\<rparr>]"
    using ev by simp
  have long: "\<exists>raw \<in> set (textLines longLineText). MaxScanTokenSize \<le> length raw"
    unfolding textLines_longLineText by (simp add: MaxScanTokenSize_def)
  have 2: "parseIDXFile (Inr (scanText longLineText (Some (Error ''read''))))
       = Inl (ErrReadingIdx ErrTooLong)"
    using parse_index_text [of longLineText "Some (Error ''read'')"] long by blast
  from l 1 2 show ?thesis by (intro conjI)
qed

text \<open>
  The claim as stated, for every input index text, fails on a text whose first line is
  well formed and whose second line, 65536 bytes without a colon, does not fit the
  scanner's buffer: \<open>parseIDXFile\<close> returns an error and no entry.
\<close>

theorem parse_long_line_counterexample:
  "textLines longLineText = [''1:0:d=2024:TMP:surface:anl'', replicate 65536 (CHR ''a'')]
   \<and> wellFormedLine ''1:0:d=2024:TMP:surface:anl''
   \<and> length (lineFields (replicate 65536 (CHR ''a''))) = 1
   \<and> parseIDXFile (Inr (scanText longLineText None)) = Inl (ErrReadingIdx ErrTooLong)"
proof -
  have l: "textLines longLineText
      = [''1:0:d=2024:TMP:surface:anl'', replicate 65536 (CHR ''a'')]"
    by (rule textLines_longLineText)
  have w: "wellFormedLine ''1:0:d=2024:TMP:surface:anl''" by code_simp
  have nc: "CHR '':'' \<notin> set (replicate 65536 (CHR ''a''))" by simp
  have f: "length (lineFields (replicate 65536 (CHR ''a''))) = 1"
    using Split_no_sep [OF nc] by (simp add: lineFields_def)
  have "scanTokens (textLines longLineText) None = ([''1:0:d=2024:TMP:surface:anl''], Some ErrTooLong)"
    unfolding l by (simp add: MaxScanTokenSize_def dropCR_def)
  then have p: "parseIDXFile (Inr (scanText longLineText None)) = Inl (ErrReadingIdx ErrTooLong)"
    by (simp add: scanText_def parseIDXFile_def)
  from l w f p show ?thesis by (intro conjI)
qed

section \<open>The transfer\<close>

lemma fst_downloadRange: "fst (downloadRange tw r f) = fetchOutcome tw r"
  by (simp add: downloadRange_def fetchOutcome_def split: option.splits)

lemma snd_downloadRange: "snd (downloadRange tw r f) = applyWrite (written tw r) f"
  by (simp add: downloadRange_def written_def applyWrite_def split: option.splits)

lemma downloadRange_eq:
  "downloadRange tw r f = (fetchOutcome tw r, applyWrite (written tw r) f)"
  using fst_downloadRange [of tw r f] snd_downloadRange [of tw r f]
  by (cases "downloadRange tw r f") simp

lemma runTasks_results:
  "fst (runTasks tw rs order f)
     = map (\<lambda>i. (i, fetchOutcome (tw i) (rs ! i))) (filter (\<lambda>i. i < length rs) order)"
  by (induction order arbitrary: f) (simp_all add: downloadRange_eq split_beta)

lemma runTasks_contents:
  "snd (runTasks tw rs order f)
     = foldl (\<lambda>g i. applyWrite (written (tw i) (rs ! i)) g) f (filter (\<lambda>i. i < length rs) order)"
  by (induction order arbitrary: f) (simp_all add: downloadRange_eq split_beta)

lemma validSchedule_set: "validSchedule n order \<Longrightarrow> set order = {0..<n}"
  unfolding validSchedule_def by (metis set_mset_mset set_upt)

lemma validSchedule_filter:
  "validSchedule n order \<Longrightarrow> filter (\<lambda>i. i < n) order = order"
  using validSchedule_set [of n order] by (simp add: filter_id_conv)

lemma validSchedule_distinct: "validSchedule n order \<Longrightarrow> distinct order"
  unfolding validSchedule_def by (metis distinct_upt mset_eq_imp_distinct_iff)

lemma collectErrors_filter:
  "collectErrors rs m order
     = map (\<lambda>i. ErrDownloadingRange (Start (rs ! i)) (End (rs ! i)) (the (the (m i))))
         (filter (\<lambda>i. \<exists>e. m i = Some (Some e)) order)"
  by (induction order) (auto split: option.splits)

lemma map_of_outcomes:
  "map_of (map (\<lambda>i. (i, g i)) xs) i = (if i \<in> set xs then Some (g i) else None)"
  by (induction xs) auto

lemma errors_mset:
  assumes "validSchedule (length rs) lock" and "validSchedule (length rs) send"
  shows "mset (collectErrors rs (map_of (fst (runTasks tw rs lock f))) send)
           = mset (failures tw rs)"
proof -
  let ?m = "map_of (fst (runTasks tw rs lock f))"
  let ?h = "\<lambda>i. ErrDownloadingRange (Start (rs ! i)) (End (rs ! i))
                (the (fetchOutcome (tw i) (rs ! i)))"
  let ?P = "\<lambda>i. fetchOutcome (tw i) (rs ! i) \<noteq> None"
  have m: "?m i = (if i \<in> set lock then Some (fetchOutcome (tw i) (rs ! i)) else None)" for i
    by (simp add: runTasks_results validSchedule_filter [OF assms(1)] map_of_outcomes)
  have sl: "set send = set lock"
    using validSchedule_set [OF assms(1)] validSchedule_set [OF assms(2)] by simp
  have "collectErrors rs ?m send = map ?h (filter ?P send)"
    unfolding collectErrors_filter
    by (rule map_cong [OF filter_cong]) (auto simp: m sl)
  then have "mset (collectErrors rs ?m send) = image_mset ?h (filter_mset ?P (mset send))"
    by simp
  also have "\<dots> = image_mset ?h (filter_mset ?P (mset [0..<length rs]))"
    using assms(2) by (simp add: validSchedule_def)
  also have "\<dots> = mset (failures tw rs)" by (simp add: failures_def)
  finally show ?thesis .
qed

lemma failures_Nil:
  "failures tw rs = [] \<longleftrightarrow> (\<forall>i < length rs. fetchOutcome (tw i) (rs ! i) = None)"
  by (auto simp: failures_def filter_empty_conv)

lemma maxEndLoop_Max:
  "sint (maxEndLoop rs m) = Max (insert (sint m) ((\<lambda>r. sint (End r)) ` set rs))"
proof (induction rs arbitrary: m)
  case Nil
  show ?case by simp
next
  case (Cons r rs)
  let ?S = "(\<lambda>r. sint (End r)) ` set rs"
  have fin: "finite ?S" by simp
  have "Max (insert (sint (if m <s End r then End r else m)) ?S)
      = Max (insert (sint m) (insert (sint (End r)) ?S))"
  proof (cases "?S = {}")
    case True
    then show ?thesis by (auto simp: word_sless_alt max_def)
  next
    case False
    then show ?thesis using fin by (auto simp: word_sless_alt max_def)
  qed
  then show ?case using Cons.IH [of "if m <s End r then End r else m"] by simp
qed

lemma Truncate_fresh:
  "Truncate failure n [] = Inr f \<Longrightarrow> f = replicate (nat (sint n)) 0"
  by (auto simp: Truncate_def split: if_splits option.splits)

lemma holds_iff_nth:
  "holds f off d \<longleftrightarrow> (\<forall>k < length d. off + k < length f \<and> f ! (off + k) = d ! k)"
proof
  assume h: "holds f off d"
  show "\<forall>k < length d. off + k < length f \<and> f ! (off + k) = d ! k"
  proof (intro allI impI)
    fix k assume k: "k < length d"
    have len: "length d = min (length d) (length f - off)"
      using arg_cong [OF h [unfolded holds_def], of length] by simp
    then have in_f: "off + k < length f" using k by linarith
    have "d ! k = take (length d) (drop off f) ! k" using h by (simp add: holds_def)
    also have "\<dots> = f ! (off + k)" using k in_f by simp
    finally show "off + k < length f \<and> f ! (off + k) = d ! k" using in_f by simp
  qed
next
  assume a: "\<forall>k < length d. off + k < length f \<and> f ! (off + k) = d ! k"
  show "holds f off d"
    unfolding holds_def
  proof (rule nth_equalityI)
    show "length (take (length d) (drop off f)) = length d"
    proof (cases d rule: rev_cases)
      case Nil
      then show ?thesis by simp
    next
      case (snoc ys y)
      then have "off + (length d - 1) < length f" using a by simp
      then show ?thesis using snoc by simp
    qed
  next
    fix k assume "k < length (take (length d) (drop off f))"
    then have k: "k < length d" by simp
    then have in_f: "off + k < length f" and eq: "f ! (off + k) = d ! k" using a by simp_all
    have "take (length d) (drop off f) ! k = drop off f ! k" using k by simp
    also have "\<dots> = f ! (off + k)" using in_f by (intro nth_drop) simp
    finally show "take (length d) (drop off f) ! k = d ! k" using eq by simp
  qed
qed

lemma length_writeAt:
  "length (writeAt f off d) = (if d = [] then length f else max (length f) (off + length d))"
  by (auto simp: writeAt_def)

lemma nth_writeAt_inside: "k < length d \<Longrightarrow> writeAt f off d ! (off + k) = d ! k"
proof -
  assume k: "k < length d"
  then have ne: "d \<noteq> []" by auto
  have pre: "length (take off f @ replicate (off - length f) 0) = off" by simp
  have "writeAt f off d = (take off f @ replicate (off - length f) 0) @ d @ drop (off + length d) f"
    using ne by (simp add: writeAt_def)
  then have "writeAt f off d ! (off + k) = (d @ drop (off + length d) f) ! k"
    using nth_append_length_plus [of "take off f @ replicate (off - length f) 0" _ k] pre
    by simp
  then show ?thesis using k by (simp add: nth_append)
qed

lemma nth_writeAt_outside:
  assumes "p < length f" and "p < off \<or> off + length d \<le> p"
  shows "writeAt f off d ! p = f ! p"
proof (cases "d = []")
  case True
  then show ?thesis by (simp add: writeAt_def)
next
  case False
  show ?thesis
  proof (cases "p < off")
    case True
    then show ?thesis using assms(1) False by (simp add: writeAt_def nth_append)
  next
    case nlt: False
    then have ge: "off + length d \<le> p" using assms(2) by simp
    then have "off \<le> length f" using assms(1) by simp
    then have w: "writeAt f off d = (take off f @ d) @ drop (off + length d) f"
      using False by (simp add: writeAt_def)
    have len: "length (take off f @ d) = off + length d" using \<open>off \<le> length f\<close> by simp
    have "((take off f @ d) @ drop (off + length d) f) ! p
        = drop (off + length d) f ! (p - length (take off f @ d))"
      using ge len by (subst nth_append) simp
    then have "writeAt f off d ! p = drop (off + length d) f ! (p - (off + length d))"
      using w len by simp
    also have "\<dots> = f ! (off + length d + (p - (off + length d)))"
      using assms(1) ge by (intro nth_drop) simp
    finally show ?thesis using ge by simp
  qed
qed

lemma holds_writeAt: "holds (writeAt f off d) off d"
  unfolding holds_iff_nth
proof (intro allI impI)
  fix k assume k: "k < length d"
  then have "off + k < length (writeAt f off d)" by (auto simp: length_writeAt)
  then show "off + k < length (writeAt f off d) \<and> writeAt f off d ! (off + k) = d ! k"
    using nth_writeAt_inside [OF k] by simp
qed

lemma holds_applyWrite_other:
  assumes "holds f off d" and "\<not> overlaps wr (Some (off, d))"
  shows "holds (applyWrite wr f) off d"
proof (cases wr)
  case None
  then show ?thesis using assms(1) by (simp add: applyWrite_def)
next
  case (Some od)
  obtain o' d' where od: "od = (o', d')" by (cases od)
  have dis: "o' + length d' \<le> off \<or> off + length d \<le> o'"
    using assms(2) Some od by (auto simp: overlaps_def)
  have "holds (writeAt f o' d') off d"
    unfolding holds_iff_nth
  proof (intro allI impI)
    fix k assume k: "k < length d"
    then have in_f: "off + k < length f" and eq: "f ! (off + k) = d ! k"
      using assms(1) by (simp_all add: holds_iff_nth)
    have out: "off + k < o' \<or> o' + length d' \<le> off + k" using dis k by linarith
    have "writeAt f o' d' ! (off + k) = f ! (off + k)"
      using in_f out by (rule nth_writeAt_outside)
    moreover have "off + k < length (writeAt f o' d')"
      using in_f by (auto simp: length_writeAt)
    ultimately show "off + k < length (writeAt f o' d') \<and> writeAt f o' d' ! (off + k) = d ! k"
      using eq by simp
  qed
  then show ?thesis using Some od by (simp add: applyWrite_def)
qed

lemma foldl_holds:
  assumes "holds f off d"
    and "\<forall>j \<in> set order. \<not> overlaps (wr j) (Some (off, d))"
  shows "holds (foldl (\<lambda>g j. applyWrite (wr j) g) f order) off d"
  using assms
proof (induction order arbitrary: f)
  case Nil
  then show ?case by simp
next
  case (Cons j order)
  have "holds (applyWrite (wr j) f) off d"
    using Cons.prems by (intro holds_applyWrite_other) simp_all
  then show ?case using Cons by simp
qed

lemma written_of_success:
  "fetchOutcome tw r = None \<Longrightarrow> written tw r = Some (nat (sint (Start r)), Body tw)"
  by (simp add: fetchOutcome_def downloadRange_def written_def split: option.splits if_splits)

lemma success_remains:
  assumes vs: "validSchedule (length rs) order"
    and i: "i < length rs"
    and ok: "fetchOutcome (tw i) (rs ! i) = None"
    and dis: "\<forall>j < length rs. j \<noteq> i
                \<longrightarrow> \<not> overlaps (written (tw j) (rs ! j)) (written (tw i) (rs ! i))"
  shows "holds (snd (runTasks tw rs order f)) (nat (sint (Start (rs ! i)))) (Body (tw i))"
proof -
  let ?off = "nat (sint (Start (rs ! i)))" and ?d = "Body (tw i)"
  let ?step = "\<lambda>g j. applyWrite (written (tw j) (rs ! j)) g"
  have wi: "written (tw i) (rs ! i) = Some (?off, ?d)" using ok by (rule written_of_success)
  have "i \<in> set order" using validSchedule_set [OF vs] i by simp
  then obtain pre post where split: "order = pre @ i # post" by (auto dest: split_list)
  have "distinct order" using vs by (rule validSchedule_distinct)
  then have notin: "i \<notin> set post" using split by simp
  have post: "\<forall>j \<in> set post. \<not> overlaps (written (tw j) (rs ! j)) (Some (?off, ?d))"
  proof
    fix j assume j: "j \<in> set post"
    then have "j \<in> set order" using split by simp
    then have "j < length rs" using validSchedule_set [OF vs] by simp
    moreover have "j \<noteq> i" using j notin by auto
    ultimately show "\<not> overlaps (written (tw j) (rs ! j)) (Some (?off, ?d))"
      using dis wi by simp
  qed
  have "snd (runTasks tw rs order f) = foldl ?step f order"
    by (simp add: runTasks_contents validSchedule_filter [OF vs])
  also have "\<dots> = foldl ?step (writeAt (foldl ?step f pre) ?off ?d) post"
    by (simp add: split wi applyWrite_def)
  finally have eq: "snd (runTasks tw rs order f)
      = foldl ?step (writeAt (foldl ?step f pre) ?off ?d) post" .
  show ?thesis
    unfolding eq by (rule foldl_holds [OF holds_writeAt post])
qed

text \<open>
  Claim C6. Where the file has been created and sized and every task runs once, in any
  order: each task yields its own outcome whatever the others do; \<open>downloadRanges\<close>
  returns success iff no fetch failed; on failure it reports the number of failed ranges
  and, for each, its bounds and error; the file it leaves is the one the tasks wrote,
  with nothing undone, and it holds the bytes of every successful fetch that no other
  write overlaps.
\<close>

theorem failures_aggregated:
  assumes c: "createErr w = None"
    and t: "Truncate (truncateErr w) (maxEndLoop ranges 0 + 1) [] = Inr f"
    and lock: "validSchedule (length ranges) (lockOrder w)"
    and send: "validSchedule (length ranges) (sendOrder w)"
  shows "\<exists>errs.
       fst (runTasks (task w) ranges (lockOrder w) f)
         = map (\<lambda>i. (i, fetchOutcome (task w i) (ranges ! i))) (lockOrder w)
     \<and> downloadRanges w ranges dest
         = (if errs = [] then None else Some (Encountered (length errs) errs),
            Some (snd (runTasks (task w) ranges (lockOrder w) f)),
            [OpenFile, TruncateTo (maxEndLoop ranges 0 + 1)] @ map Go [0..<length ranges])
     \<and> mset errs = mset (failures (task w) ranges)
     \<and> (errs = [] \<longleftrightarrow> (\<forall>i < length ranges. fetchOutcome (task w i) (ranges ! i) = None))
     \<and> (\<forall>i < length ranges.
           fetchOutcome (task w i) (ranges ! i) = None
           \<and> (\<forall>j < length ranges. j \<noteq> i
                 \<longrightarrow> \<not> overlaps (written (task w j) (ranges ! j))
                                (written (task w i) (ranges ! i)))
           \<longrightarrow> holds (snd (runTasks (task w) ranges (lockOrder w) f))
                 (nat (sint (Start (ranges ! i)))) (Body (task w i)))"
proof -
  let ?run = "runTasks (task w) ranges (lockOrder w) f"
  let ?errs = "collectErrors ranges (map_of (fst ?run)) (sendOrder w)"
  have ran: "fst ?run = map (\<lambda>i. (i, fetchOutcome (task w i) (ranges ! i))) (lockOrder w)"
    by (simp add: runTasks_results validSchedule_filter [OF lock])
  have res: "downloadRanges w ranges dest
      = (if ?errs = [] then None else Some (Encountered (length ?errs) ?errs),
         Some (snd ?run),
         [OpenFile, TruncateTo (maxEndLoop ranges 0 + 1)] @ map Go [0..<length ranges])"
    using c t by (simp add: downloadRanges_def split_beta Let_def)
  have ms: "mset ?errs = mset (failures (task w) ranges)"
    using lock send by (rule errors_mset)
  have "?errs = [] \<longleftrightarrow> failures (task w) ranges = []"
    using ms by (metis mset_zero_iff)
  then have none: "?errs = [] \<longleftrightarrow> (\<forall>i < length ranges. fetchOutcome (task w i) (ranges ! i) = None)"
    by (simp add: failures_Nil)
  have kept: "holds (snd ?run) (nat (sint (Start (ranges ! i)))) (Body (task w i))"
    if "i < length ranges" and "fetchOutcome (task w i) (ranges ! i) = None"
      and "\<forall>j < length ranges. j \<noteq> i
             \<longrightarrow> \<not> overlaps (written (task w j) (ranges ! j)) (written (task w i) (ranges ! i))"
    for i
    using lock that by (rule success_remains)
  show ?thesis
    using ran res ms none kept by (intro exI [of _ ?errs]) blast
qed

theorem failures_aggregated_witness:
  "validSchedule 5 [4, 1, 0, 3, 2] \<and> validSchedule 5 [3, 0, 2, 1, 4]
   \<and> downloadRanges fiveWorld fiveRanges None
       = (Some (Encountered 2
                 [ErrDownloadingRange 9 10 (ErrMakingRequest (Error ''timeout'')),
                  ErrDownloadingRange 3 4 (UnexpectedStatus 200)]),
          Some [1, 1, 0, 0, 0, 0, 3, 3, 0, 0, 0, 0, 5, 5],
          [OpenFile, TruncateTo 14, Go 0, Go 1, Go 2, Go 3, Go 4])
   \<and> mset [ErrDownloadingRange 9 10 (ErrMakingRequest (Error ''timeout'')),
            ErrDownloadingRange 3 4 (UnexpectedStatus 200)]
       = mset (failures fiveTasks fiveRanges)
   \<and> holds [1, 1, 0, 0, 0, 0, 3, 3, 0, 0, 0, 0, 5, 5] 12 [5, 5]"
proof -
  have five: "length fiveRanges = 5" by code_simp
  have lockv: "validSchedule (length fiveRanges) (lockOrder fiveWorld)"
    unfolding validSchedule_def by code_simp
  have sendv: "validSchedule (length fiveRanges) (sendOrder fiveWorld)"
    unfolding validSchedule_def by code_simp
  have v1: "validSchedule 5 [4, 1, 0, 3, 2]" using lockv five by (simp add: fiveWorld_def)
  have v2: "validSchedule 5 [3, 0, 2, 1, 4]" using sendv five by (simp add: fiveWorld_def)
  have c: "createErr fiveWorld = None" by code_simp
  have t: "Truncate (truncateErr fiveWorld) (maxEndLoop fiveRanges 0 + 1) []
      = Inr (replicate 14 0)"
    by code_simp
  have conc: "downloadRanges fiveWorld fiveRanges None
       = (Some (Encountered 2
                 [ErrDownloadingRange 9 10 (ErrMakingRequest (Error ''timeout'')),
                  ErrDownloadingRange 3 4 (UnexpectedStatus 200)]),
          Some [1, 1, 0, 0, 0, 0, 3, 3, 0, 0, 0, 0, 5, 5],
          [OpenFile, TruncateTo 14, Go 0, Go 1, Go 2, Go 3, Go 4])"
    by code_simp
  have ok4: "4 < length fiveRanges \<and> fetchOutcome (task fiveWorld 4) (fiveRanges ! 4) = None
      \<and> nat (sint (Start (fiveRanges ! 4))) = 12 \<and> Body (task fiveWorld 4) = [5, 5]"
    by code_simp
  have dis: "\<forall>j < length fiveRanges. j \<noteq> 4
      \<longrightarrow> \<not> overlaps (written (task fiveWorld j) (fiveRanges ! j))
                     (written (task fiveWorld 4) (fiveRanges ! 4))"
    unfolding five by code_simp
  obtain errs where
    res: "downloadRanges fiveWorld fiveRanges None
         = (if errs = [] then None else Some (Encountered (length errs) errs),
            Some (snd (runTasks (task fiveWorld) fiveRanges (lockOrder fiveWorld) (replicate 14 0))),
            [OpenFile, TruncateTo (maxEndLoop fiveRanges 0 + 1)] @ map Go [0..<length fiveRanges])"
    and ms: "mset errs = mset (failures (task fiveWorld) fiveRanges)"
    and kept: "\<forall>i < length fiveRanges.
           fetchOutcome (task fiveWorld i) (fiveRanges ! i) = None
           \<and> (\<forall>j < length fiveRanges. j \<noteq> i
                 \<longrightarrow> \<not> overlaps (written (task fiveWorld j) (fiveRanges ! j))
                                (written (task fiveWorld i) (fiveRanges ! i)))
           \<longrightarrow> holds (snd (runTasks (task fiveWorld) fiveRanges (lockOrder fiveWorld)
                   (replicate 14 0)))
                 (nat (sint (Start (fiveRanges ! i)))) (Body (task fiveWorld i))"
    using failures_aggregated [OF c t lockv sendv, of None] by blast
  have errs: "errs = [ErrDownloadingRange 9 10 (ErrMakingRequest (Error ''timeout'')),
                  ErrDownloadingRange 3 4 (UnexpectedStatus 200)]"
    and fin: "snd (runTasks (task fiveWorld) fiveRanges (lockOrder fiveWorld) (replicate 14 0))
         = [1, 1, 0, 0, 0, 0, 3, 3, 0, 0, 0, 0, 5, 5]"
    using res conc by (auto split: if_splits)
  have tw: "task fiveWorld = fiveTasks" by (simp add: fiveWorld_def)
  have h: "holds [1, 1, 0, 0, 0, 0, 3, 3, 0, 0, 0, 0, 5, 5] 12 [5, 5]"
    using kept ok4 dis fin by (metis (no_types, lifting))
  show ?thesis using v1 v2 conc ms errs tw h by simp
qed

text \<open>
  Claim C7, as amended. \<open>downloadRanges\<close> computes \<open>maxEnd\<close> as the largest of 0 and the
  \<open>End\<close> of every range. If the file cannot be created, or cannot be truncated to
  \<open>maxEnd + 1\<close> bytes, it returns the error and starts no task. Otherwise the file is
  \<open>maxEnd + 1\<close> zero bytes when the tasks start, one for each range, after the file
  was opened and truncated.
\<close>

theorem preallocation_first:
  "sint (maxEndLoop ranges 0) = Max (insert 0 ((\<lambda>r. sint (End r)) ` set ranges))
   \<and> (\<forall>err. createErr w = Some err
         \<longrightarrow> downloadRanges w ranges dest = (Some (ErrCreatingOutputFile err), dest, [OpenFile]))
   \<and> (\<forall>err. createErr w = None
            \<and> Truncate (truncateErr w) (maxEndLoop ranges 0 + 1) [] = Inl err
         \<longrightarrow> downloadRanges w ranges dest
               = (Some (ErrPreallocating err), Some [],
                  [OpenFile, TruncateTo (maxEndLoop ranges 0 + 1)]))
   \<and> (\<forall>f. createErr w = None
            \<and> Truncate (truncateErr w) (maxEndLoop ranges 0 + 1) [] = Inr f
         \<longrightarrow> f = replicate (nat (sint (maxEndLoop ranges 0 + 1))) 0
             \<and> snd (downloadRanges w ranges dest)
                 = (Some (snd (runTasks (task w) ranges (lockOrder w) f)),
                    [OpenFile, TruncateTo (maxEndLoop ranges 0 + 1)]
                      @ map Go [0..<length ranges]))"
proof -
  have a: "sint (maxEndLoop ranges 0) = Max (insert 0 ((\<lambda>r. sint (End r)) ` set ranges))"
    using maxEndLoop_Max [of ranges 0] by simp
  have b: "downloadRanges w ranges dest = (Some (ErrCreatingOutputFile err), dest, [OpenFile])"
    if "createErr w = Some err" for err
    using that by (simp add: downloadRanges_def)
  have c: "downloadRanges w ranges dest
      = (Some (ErrPreallocating err), Some [], [OpenFile, TruncateTo (maxEndLoop ranges 0 + 1)])"
    if "createErr w = None" and "Truncate (truncateErr w) (maxEndLoop ranges 0 + 1) [] = Inl err"
    for err
    using that by (simp add: downloadRanges_def)
  have d: "f = replicate (nat (sint (maxEndLoop ranges 0 + 1))) 0
      \<and> snd (downloadRanges w ranges dest)
          = (Some (snd (runTasks (task w) ranges (lockOrder w) f)),
             [OpenFile, TruncateTo (maxEndLoop ranges 0 + 1)] @ map Go [0..<length ranges])"
    if "createErr w = None" and "Truncate (truncateErr w) (maxEndLoop ranges 0 + 1) [] = Inr f"
    for f
    using that Truncate_fresh [OF that(2)]
    by (simp add: downloadRanges_def split_beta Let_def)
  show ?thesis using a b c d by blast
qed

theorem preallocation_first_witness:
  "maxEndLoop fiveRanges 0 = 13
   \<and> snd (downloadRanges fiveWorld fiveRanges None)
       = (Some [1, 1, 0, 0, 0, 0, 3, 3, 0, 0, 0, 0, 5, 5],
          [OpenFile, TruncateTo 14, Go 0, Go 1, Go 2, Go 3, Go 4])
   \<and> downloadRanges deniedWorld fiveRanges None
       = (Some (ErrCreatingOutputFile (Error ''denied'')), None, [OpenFile])
   \<and> downloadRanges fullWorld fiveRanges None
       = (Some (ErrPreallocating (Error ''full'')), Some [], [OpenFile, TruncateTo 14])"
proof -
  have m: "maxEndLoop fiveRanges 0 = 13" by code_simp
  have c: "createErr fiveWorld = None" by code_simp
  have t: "Truncate (truncateErr fiveWorld) (maxEndLoop fiveRanges 0 + 1) []
      = Inr (replicate 14 0)"
    by code_simp
  have "snd (downloadRanges fiveWorld fiveRanges None)
      = (Some (snd (runTasks (task fiveWorld) fiveRanges (lockOrder fiveWorld) (replicate 14 0))),
         [OpenFile, TruncateTo (maxEndLoop fiveRanges 0 + 1)] @ map Go [0..<length fiveRanges])"
    using preallocation_first [of fiveRanges fiveWorld None] c t by blast
  moreover have "(Some (snd (runTasks (task fiveWorld) fiveRanges (lockOrder fiveWorld)
          (replicate 14 0))),
         [OpenFile, TruncateTo (maxEndLoop fiveRanges 0 + 1)] @ map Go [0..<length fiveRanges])
      = (Some [1, 1, 0, 0, 0, 0, 3, 3, 0, 0, 0, 0, 5, 5],
          [OpenFile, TruncateTo 14, Go 0, Go 1, Go 2, Go 3, Go 4])"
    by code_simp
  ultimately have 1: "snd (downloadRanges fiveWorld fiveRanges None)
       = (Some [1, 1, 0, 0, 0, 0, 3, 3, 0, 0, 0, 0, 5, 5],
          [OpenFile, TruncateTo 14, Go 0, Go 1, Go 2, Go 3, Go 4])"
    by (rule trans)
  have d: "createErr deniedWorld = Some (Error ''denied'')" by code_simp
  have 2: "downloadRanges deniedWorld fiveRanges None
       = (Some (ErrCreatingOutputFile (Error ''denied'')), None, [OpenFile])"
    using preallocation_first [of fiveRanges deniedWorld None] d by blast
  have f: "createErr fullWorld = None" by code_simp
  have ft: "Truncate (truncateErr fullWorld) (maxEndLoop fiveRanges 0 + 1) []
      = Inl (Error ''full'')"
    by code_simp
  have "downloadRanges fullWorld fiveRanges None
       = (Some (ErrPreallocating (Error ''full'')), Some [],
          [OpenFile, TruncateTo (maxEndLoop fiveRanges 0 + 1)])"
    using preallocation_first [of fiveRanges fullWorld None] f ft by blast
  then have 3: "downloadRanges fullWorld fiveRanges None
       = (Some (ErrPreallocating (Error ''full'')), Some [], [OpenFile, TruncateTo 14])"
    unfolding m by simp
  from m 1 2 3 show ?thesis by (intro conjI)
qed

text \<open>
  The claim as stated, the maximum \<open>End\<close> across all ranges, fails on the plan
  \<open>[[0,-1]]\<close> that \<open>generateRanges\<close> returns for two entries at offset 0: the only
  \<open>End\<close> is -1, yet \<open>maxEnd\<close> is 0 and the file is truncated to 1 byte, not to 0.
\<close>

theorem preallocation_counterexample:
  "fst (generateRanges zeroIndex allLevelsOfA) = [\<lparr>Start = 0, End = - 1\<rparr>]
   \<and> sint (End \<lparr>Start = 0, End = - 1 :: int64\<rparr>) = - 1
   \<and> maxEndLoop [\<lparr>Start = 0, End = - 1\<rparr>] 0 = 0
   \<and> downloadRanges oneTaskWorld [\<lparr>Start = 0, End = - 1\<rparr>] None
       = (None, Some [0], [OpenFile, TruncateTo 1, Go 0])"
  by code_simp

text \<open>
  Claim C10. With an empty range list, and the file created and truncated without
  error, \<open>downloadRanges\<close> leaves a file of exactly 1 byte, starts no task and returns
  success. \<open>main\<close> calls it whatever the plan: when no entry matches, the run ends with
  a destination file of 1 byte and reports completion.
\<close>

theorem empty_plan:
  "(createErr w = None \<and> truncateErr w = None
      \<longrightarrow> downloadRanges w [] dest = (None, Some [0], [OpenFile, TruncateTo 1]))
   \<and> (length (Args mw) = 2 \<and> readFile mw = Inr configFile \<and> unmarshal mw = Inr config
       \<and> downloadFileResult mw = None \<and> parseIDXFile (idxFile mw) = Inr parameters
       \<and> fst (generateRanges parameters (Parameters config)) = []
       \<and> createErr (transfer mw) = None \<and> truncateErr (transfer mw) = None
      \<longrightarrow> main mw dest
            = ([DownloadingIdx, DownloadRangesHeader, TotalLine 0, DownloadingTo, Completed],
               Some [0], [OpenFile, TruncateTo 1]))"
proof -
  have run: "runTasks tw [] order f = ([], f)" for tw order f
    by (induction order) simp_all
  have col: "collectErrors [] Map.empty order = []" for order
    by (induction order) simp_all
  have a: "downloadRanges w' [] dest = (None, Some [0], [OpenFile, TruncateTo 1])"
    if "createErr w' = None" and "truncateErr w' = None" for w'
    using that by (simp add: downloadRanges_def Truncate_def run col word_sless_alt)
  have b: "main mw dest
      = ([DownloadingIdx, DownloadRangesHeader, TotalLine 0, DownloadingTo, Completed],
         Some [0], [OpenFile, TruncateTo 1])"
    if "length (Args mw) = 2" and "readFile mw = Inr configFile" and "unmarshal mw = Inr config"
      and "downloadFileResult mw = None" and "parseIDXFile (idxFile mw) = Inr parameters"
      and "fst (generateRanges parameters (Parameters config)) = []"
      and "createErr (transfer mw) = None" and "truncateErr (transfer mw) = None"
  proof -
    have g: "generateRanges parameters (Parameters config) = ([], None)"
      using that(6) by (simp add: generateRanges_def)
    show ?thesis
      using that(1-5) g a [OF that(7) that(8)] by (simp add: main_def)
  qed
  show ?thesis using a b by blast
qed

theorem empty_plan_witness:
  "downloadRanges quietWorld [] None = (None, Some [0], [OpenFile, TruncateTo 1])
   \<and> fst (generateRanges (map lineEntry (filter wellFormedLine exampleLines)) [''T'' \<mapsto> []]) = []
   \<and> main emptyPlanWorld None
       = ([DownloadingIdx, DownloadRangesHeader, TotalLine 0, DownloadingTo, Completed],
          Some [0], [OpenFile, TruncateTo 1])"
proof -
  have c: "createErr quietWorld = None" and t: "truncateErr quietWorld = None"
    by (simp_all add: quietWorld_def)
  have 1: "downloadRanges quietWorld [] None = (None, Some [0], [OpenFile, TruncateTo 1])"
    using empty_plan [of quietWorld None] c t by blast
  have a: "length (Args emptyPlanWorld) = 2" by (simp add: emptyPlanWorld_def)
  have r: "readFile emptyPlanWorld = Inr ''{}''" by (simp add: emptyPlanWorld_def)
  have u: "unmarshal emptyPlanWorld
      = Inr \<lparr>IdxURL = ''http://host/gfs.idx'', Parameters = [''T'' \<mapsto> []]\<rparr>"
    by (simp add: emptyPlanWorld_def)
  have d: "downloadFileResult emptyPlanWorld = None" by (simp add: emptyPlanWorld_def)
  have p: "parseIDXFile (idxFile emptyPlanWorld)
      = Inr (map lineEntry (filter wellFormedLine exampleLines))"
    by (simp add: emptyPlanWorld_def parseIDXFile_def parseLines_filter)
  have g: "fst (generateRanges (map lineEntry (filter wellFormedLine exampleLines))
      (Parameters \<lparr>IdxURL = ''http://host/gfs.idx'', Parameters = [''T'' \<mapsto> []]\<rparr>)) = []"
    by code_simp
  have c': "createErr (transfer emptyPlanWorld) = None"
    and t': "truncateErr (transfer emptyPlanWorld) = None"
    by (simp_all add: emptyPlanWorld_def quietWorld_def)
  have 2: "main emptyPlanWorld None
       = ([DownloadingIdx, DownloadRangesHeader, TotalLine 0, DownloadingTo, Completed],
          Some [0], [OpenFile, TruncateTo 1])"
    using empty_plan [of _ _ emptyPlanWorld] a r u d p g c' t' by blast
  from 1 g 2 show ?thesis by simp
qed

end
